theory Spec2Isabelle
  imports Complex_Main "HOL-Library.Sublist"
begin

section \<open>Strings\<close>

text \<open>
  A string is a list of 8-bit characters; a character stands for the JavaScript code unit
  of the same value.
\<close>

text \<open>
  The class \<open>\s\<close> of a JavaScript regular expression, which is also what \<open>trim()\<close>
  strips, restricted to code units below 256: TAB, LF, VT, FF, CR, SPACE and NBSP.
\<close>

definition isSpace :: "char \<Rightarrow> bool" where
  "isSpace c = (of_char c \<in> {9, 10, 11, 12, 13, 32, 160 :: nat})"

text \<open>ASCII whitespace as HTML and CSS define it: TAB, LF, FF, CR and SPACE.\<close>

definition isCssSpace :: "char \<Rightarrow> bool" where
  "isCssSpace c = (of_char c \<in> {9, 10, 12, 13, 32 :: nat})"

definition isDigit :: "char \<Rightarrow> bool" where
  "isDigit c = (48 \<le> (of_char c :: nat) \<and> (of_char c :: nat) \<le> 57)"

definition isAlnum :: "char \<Rightarrow> bool" where
  "isAlnum c = (let n = of_char c :: nat in
     (48 \<le> n \<and> n \<le> 57) \<or> (65 \<le> n \<and> n \<le> 90) \<or> (97 \<le> n \<and> n \<le> 122))"

definition toLowerCase :: "string \<Rightarrow> string" where
  "toLowerCase s = map (\<lambda>c. let n = of_char c :: nat in
       if 65 \<le> n \<and> n \<le> 90 then char_of (n + 32) else c) s"

text \<open>
  \<open>str.split(sep+).filter(Boolean)\<close> for a class \<open>sep\<close> of separator characters: the
  maximal runs of other characters.
\<close>

fun splitBy :: "(char \<Rightarrow> bool) \<Rightarrow> string \<Rightarrow> string \<Rightarrow> string list" where
  "splitBy sep cur [] = (if cur = [] then [] else [cur])"
| "splitBy sep cur (c # cs) =
     (if sep c then (if cur = [] then splitBy sep [] cs else cur # splitBy sep [] cs)
      else splitBy sep (cur @ [c]) cs)"

definition trim :: "string \<Rightarrow> string" where
  "trim s = rev (dropWhile isSpace (rev (dropWhile isSpace s)))"

text \<open>\<open>xs.join(sep)\<close>\<close>

fun joinWith :: "string \<Rightarrow> string list \<Rightarrow> string" where
  "joinWith sep [] = []"
| "joinWith sep [x] = x"
| "joinWith sep (x # y # ys) = x @ sep @ joinWith sep (y # ys)"

definition digitChar :: "nat \<Rightarrow> char" where
  "digitChar d = (if d < 10 then char_of (48 + d) else char_of (87 + d))"

text \<open>\<open>n.toString(base)\<close> for a natural number; bases 10 and 16 are used.\<close>

fun showNat :: "nat \<Rightarrow> nat \<Rightarrow> string" where
  "showNat base n =
     (if base < 2 \<or> n < base then [digitChar n]
      else showNat base (n div base) @ [digitChar (n mod base)])"

declare showNat.simps [simp del]

section \<open>Mapping engine (mappingengine.ts)\<close>

text \<open>
  A \<open>Record<Selector, ColumnName>\<close> is given by its own string-keyed properties, a finite
  map.
\<close>

type_synonym Selector = string
type_synonym ColumnName = string
type_synonym Mapping = "Selector \<rightharpoonup> ColumnName"

text \<open>
  \<open>mapping[key] = v\<close> for a string \<open>v\<close> and an object \<open>mapping\<close> that was created by \<open>{}\<close>.
  The key \<open>__proto__\<close> names the accessor that such an object inherits from
  \<open>Object.prototype\<close>; its setter ignores a value that is neither an object nor null, so
  the assignment creates no own property.  Every other key becomes an own property with
  the value \<open>v\<close>.
\<close>

definition setProperty :: "Mapping \<Rightarrow> string \<Rightarrow> string \<Rightarrow> Mapping" where
  "setProperty mapping key v = (if key = ''__proto__'' then mapping else mapping(key \<mapsto> v))"

record FieldInfo =
  selector :: string
  label :: "string option"
  name :: "string option"

text \<open>The \<open>Error\<close> thrown by \<open>generateMapping\<close>; its message carries the two lengths.\<close>

datatype error = MismatchedLengths nat nat

text \<open>
  \<open>for (let i = 0; i < fields.length; i++) mapping[fields[i].selector] = columns[i]\<close>,
  guarded by the length check; the arrays are only read.  The parameter \<open>fields\<close> is
  written \<open>fs\<close>.
\<close>

definition generateMapping :: "FieldInfo list \<Rightarrow> ColumnName list \<Rightarrow> error + Mapping" where
  "generateMapping fs columns =
     (if length fs \<noteq> length columns
      then Inl (MismatchedLengths (length fs) (length columns))
      else Inr (fold (\<lambda>i mapping. setProperty mapping (selector (fs ! i)) (columns ! i))
                  [0..<length fs] Map.empty))"

subsection \<open>Auto-mapping heuristics\<close>

text \<open>
  \<open>str.replace(/[^a-z0-9\s-]/gi, '').toLowerCase().split(/\s+/).filter(Boolean)\<close>
\<close>

definition tokenize :: "string \<Rightarrow> string list" where
  "tokenize str =
     splitBy isSpace [] (toLowerCase (filter (\<lambda>c. isAlnum c \<or> isSpace c \<or> c = CHR ''-'') str))"

text \<open>
  The quotient of two set sizes.  The source divides in double precision; for sizes far
  below \<open>2^52\<close> its comparisons agree with those of the exact quotients.
\<close>

definition jaccard :: "string set \<Rightarrow> string set \<Rightarrow> rat" where
  "jaccard a b =
     (let union = a \<union> b in
      if card union = 0 then 0
      else of_nat (card (a \<inter> b)) / of_nat (card union))"

text \<open>\<open>field.label || field.name || ''\<close>: an absent or empty string is falsy.\<close>

definition fieldText :: "FieldInfo \<Rightarrow> string" where
  "fieldText field =
     (case label field of
        Some l \<Rightarrow> (if l \<noteq> [] then l else (case name field of Some n \<Rightarrow> n | None \<Rightarrow> []))
      | None \<Rightarrow> (case name field of Some n \<Rightarrow> n | None \<Rightarrow> []))"

text \<open>The inner loop over the header indices, carrying \<open>(bestIdx, bestScore)\<close>.\<close>

definition bestHeader ::
  "ColumnName list \<Rightarrow> string set \<Rightarrow> string set \<Rightarrow> int \<times> rat" where
  "bestHeader headers usedHeaders fieldTokens =
     fold (\<lambda>i (bestIdx, bestScore).
             if headers ! i \<in> usedHeaders then (bestIdx, bestScore)
             else (let score = jaccard fieldTokens (set (tokenize (headers ! i))) in
                   if score > bestScore then (int i, score) else (bestIdx, bestScore)))
          [0..<length headers] (- 1, 0)"

text \<open>One iteration of \<open>for (const field of fields)\<close> on the pair \<open>(mapping, usedHeaders)\<close>.\<close>

definition autoMapStep ::
  "ColumnName list \<Rightarrow> FieldInfo \<Rightarrow> Mapping \<times> string set \<Rightarrow> Mapping \<times> string set" where
  "autoMapStep headers field st =
     (case st of (mapping, usedHeaders) \<Rightarrow>
        if fieldText field = [] then (mapping, usedHeaders)
        else (case bestHeader headers usedHeaders (set (tokenize (fieldText field))) of
                (bestIdx, bestScore) \<Rightarrow>
                  if bestIdx \<noteq> - 1 \<and> bestScore \<ge> 2 / 10
                  then (setProperty mapping (selector field) (headers ! nat bestIdx),
                        insert (headers ! nat bestIdx) usedHeaders)
                  else (mapping, usedHeaders)))"

definition autoMap :: "FieldInfo list \<Rightarrow> ColumnName list \<Rightarrow> Mapping" where
  "autoMap fs headers = fst (fold (autoMapStep headers) fs (Map.empty, {}))"

section \<open>\<open>CSS.escape\<close> (the polyfill \<open>cssEscape\<close> of part_007)\<close>

text \<open>
  One iteration of the polyfill's loop, at position \<open>index\<close> of the string.  U+FFFD, which
  replaces the NUL character, is beyond 8 bits and is written as its three UTF-8 bytes.
\<close>

definition cssEscapeUnit :: "string \<Rightarrow> nat \<Rightarrow> string" where
  "cssEscapeUnit s index =
     (let codeUnit = of_char (s ! index) :: nat;
          firstCodeUnit = of_char (s ! 0) :: nat
      in if codeUnit = 0 then [char_of (239 :: nat), char_of (191 :: nat), char_of (189 :: nat)]
         else if (1 \<le> codeUnit \<and> codeUnit \<le> 31) \<or> codeUnit = 127 \<or>
                 (index = 0 \<and> 48 \<le> codeUnit \<and> codeUnit \<le> 57) \<or>
                 (index = 1 \<and> 48 \<le> codeUnit \<and> codeUnit \<le> 57 \<and> firstCodeUnit = 45)
         then CHR 0x5C # showNat 16 codeUnit @ '' ''
         else if index = 0 \<and> codeUnit = 45 \<and> length s = 1 then [CHR 0x5C, s ! index]
         else if codeUnit \<ge> 128 \<or> codeUnit = 45 \<or> codeUnit = 95 \<or>
                 (48 \<le> codeUnit \<and> codeUnit \<le> 57) \<or>
                 (65 \<le> codeUnit \<and> codeUnit \<le> 90) \<or>
                 (97 \<le> codeUnit \<and> codeUnit \<le> 122)
         then [s ! index]
         else [CHR 0x5C, s ! index])"

definition cssEscape :: "string \<Rightarrow> string" where
  "cssEscape s = concat (map (cssEscapeUnit s) [0..<length s])"

section \<open>The DOM\<close>

text \<open>
  What an iframe element leads to: nothing, a cross-origin window (whose \<open>document\<close>
  cannot be read and whose \<open>contentDocument\<close> is null), or a same-origin document.
\<close>

datatype 'a frame = NoWindow | CrossOrigin | SameOrigin 'a

text \<open>
  The properties of an element that the code reads.  \<open>tagName\<close> holds the lower-case
  name: the source lower-cases \<open>el.tagName\<close> before using it and otherwise compares tag
  names with each other or with \<open>'IFRAME'\<close>.  \<open>elemId\<close> is \<open>el.id\<close>, \<open>typeProp\<close> is
  \<open>el.type\<close>, \<open>nameProp\<close> is \<open>el.name\<close>, \<open>htmlFor\<close> is the \<open>for\<close> attribute; an absent
  property is the empty string.
\<close>

record edata =
  tagName :: string
  elemId :: string
  className :: string
  typeProp :: string
  nameProp :: string
  htmlFor :: string
  isContentEditable :: bool

text \<open>
  A node is a text node or an element with its child nodes, its shadow root (the child
  nodes of the shadow root, when it hosts one) and its frame content.  A document and a
  shadow root are given by their lists of child nodes.  Every node has one parent or
  host, so the DOM is a tree and a traversal meets no node twice: the \<open>visited\<close> sets of
  the scanners never hit and are left out.
\<close>

datatype node = Text string | Element edata "node list" "node list option" "node list frame"

type_synonym root = "node list"

text \<open>
  An element of a context (a document or a shadow root) is identified by its path: the
  child-node indices leading to it from the context.
\<close>

type_synonym path = "nat list"

text \<open>
  A node of the whole page is identified by its handle: the steps from the top document,
  a child step, the entry into an element's shadow root or the entry into an iframe's
  document.
\<close>

datatype step = Child nat | ShadowStep | FrameStep

type_synonym handle = "step list"

text \<open>
  Every frame document has a window of its own, with constructors of its own, and a node
  is an instance of the constructors of the window whose document it lies in, directly
  or inside shadow roots.  The script runs in the window of the top document, so for
  one of its constructors \<open>C\<close> (\<open>Element\<close>, \<open>HTMLInputElement\<close>, \<open>HTMLIFrameElement\<close>, ...)
  the test \<open>x instanceof C\<close> holds only for a node of that window: one whose handle enters
  no frame document.  The tag name decides the rest.
\<close>

definition inScriptWindow :: "handle \<Rightarrow> bool" where
  "inScriptWindow h = (FrameStep \<notin> set h)"

text \<open>A context with its handle and its content.\<close>

type_synonym ctx = "handle \<times> root"

datatype exn = SyntaxError | SecurityError

fun childNodes :: "node \<Rightarrow> node list" where
  "childNodes (Element e ch sh fr) = ch"
| "childNodes (Text s) = []"

fun nodeAt :: "root \<Rightarrow> path \<Rightarrow> node option" where
  "nodeAt ns [] = None"
| "nodeAt ns [i] = (if i < length ns then Some (ns ! i) else None)"
| "nodeAt ns (i # j # p) = (if i < length ns then nodeAt (childNodes (ns ! i)) (j # p) else None)"

definition hasTag :: "string \<Rightarrow> node \<Rightarrow> bool" where
  "hasTag t n = (case n of Element e ch sh fr \<Rightarrow> tagName e = t | Text s \<Rightarrow> False)"

text \<open>
  \<open>el.shadowRoot\<close>.  An \<open>iframe\<close> element hosts no shadow root (\<open>attachShadow\<close> refuses it),
  so its \<open>shadowRoot\<close> is null; likewise only an \<open>iframe\<close> element has a \<open>contentWindow\<close>.
\<close>

definition shadowRoot :: "node \<Rightarrow> root option" where
  "shadowRoot n =
     (case n of
        Element e ch sh fr \<Rightarrow> if tagName e = ''iframe'' then None else sh
      | Text s \<Rightarrow> None)"

definition contentWindow :: "node \<Rightarrow> root frame" where
  "contentWindow n =
     (case n of
        Element e ch sh fr \<Rightarrow> if tagName e = ''iframe'' then fr else NoWindow
      | Text s \<Rightarrow> NoWindow)"

definition contentDocument :: "node \<Rightarrow> root option" where
  "contentDocument n = (case contentWindow n of SameOrigin d \<Rightarrow> Some d | _ \<Rightarrow> None)"

fun textContent :: "node \<Rightarrow> string" and textContents :: "node list \<Rightarrow> string" where
  "textContent (Text s) = s"
| "textContent (Element e ch sh fr) = textContents ch"
| "textContents [] = []"
| "textContents (n # ns) = textContent n @ textContents ns"

text \<open>
  The child nodes among which the node at \<open>p\<close> lies: those of its parent element, or of
  the context itself for a top-level node (whose \<open>parentElement\<close> is null).
\<close>

definition siblingNodes :: "root \<Rightarrow> path \<Rightarrow> node list" where
  "siblingNodes r p =
     (if length p < 2 then r
      else (case nodeAt r (butlast p) of Some n \<Rightarrow> childNodes n | None \<Rightarrow> []))"

text \<open>
  \<open>Array.from(parent.children).filter(sib => sib.tagName === element.tagName)\<close>, as
  child-node indices, and \<open>siblings.indexOf(element)\<close>.
\<close>

definition sameTagSiblings :: "node list \<Rightarrow> string \<Rightarrow> nat list" where
  "sameTagSiblings ch t = filter (\<lambda>i. hasTag t (ch ! i)) [0..<length ch]"

definition indexOf :: "nat list \<Rightarrow> nat \<Rightarrow> nat" where
  "indexOf xs x = length (takeWhile (\<lambda>y. y \<noteq> x) xs)"

text \<open>\<open>el.previousElementSibling\<close>: the nearest element among the preceding siblings.\<close>

definition previousElementSibling :: "root \<Rightarrow> path \<Rightarrow> node option" where
  "previousElementSibling r p =
     (if p = [] then None
      else (case filter (\<lambda>n. case n of Element e ch sh fr \<Rightarrow> True | Text s \<Rightarrow> False)
                   (rev (take (last p) (siblingNodes r p))) of
              [] \<Rightarrow> None
            | n # _ \<Rightarrow> Some n))"

subsection \<open>The selector engine\<close>

text \<open>
  \<open>querySelectorAll\<close> belongs to the platform.  The functions of the repository take it
  as a parameter: given the content of a context and a selector string, an engine throws
  or returns the paths of the matching elements in document order.
\<close>

type_synonym engine = "root \<Rightarrow> string \<Rightarrow> exn + path list"

text \<open>Sequencing of computations that may throw.\<close>

definition andThen :: "exn + 'a \<Rightarrow> ('a \<Rightarrow> exn + 'b) \<Rightarrow> exn + 'b" where
  "andThen r f = (case r of Inl x \<Rightarrow> Inl x | Inr v \<Rightarrow> f v)"

text \<open>\<open>root.querySelectorAll(s).length\<close> and \<open>root.querySelector(s)\<close>\<close>

definition matchCount :: "engine \<Rightarrow> root \<Rightarrow> string \<Rightarrow> exn + nat" where
  "matchCount qsa r s = andThen (qsa r s) (\<lambda>ms. Inr (length ms))"

definition querySelector :: "engine \<Rightarrow> root \<Rightarrow> string \<Rightarrow> exn + path option" where
  "querySelector qsa r s =
     andThen (qsa r s) (\<lambda>ms. Inr (case ms of [] \<Rightarrow> None | m # _ \<Rightarrow> Some m))"

text \<open>
  A concrete engine, for evaluating the code on concrete pages.  It implements the
  fragment of CSS made of compound selectors (a type selector, \<open>#id\<close>, \<open>.class\<close>,
  \<open>:nth-of-type(n)\<close>, \<open>[attr="value"]\<close> with names of letters, digits, \<open>-\<close> and \<open>_\<close>)
  joined by the child combinator \<open>>\<close>.  It reports any string outside the fragment as a
  \<open>SyntaxError\<close>; the theorems below rely on this only for strings that CSS rejects too.
\<close>

datatype simple = TagSel string | IdSel string | ClassSel string | NthOfType nat
  | AttrSel string string

definition isNameChar :: "char \<Rightarrow> bool" where
  "isNameChar c = (isAlnum c \<or> c = CHR ''-'' \<or> c = CHR ''_'')"

definition validName :: "string \<Rightarrow> bool" where
  "validName s = (s \<noteq> [] \<and> list_all isNameChar s \<and> \<not> isDigit (hd s) \<and> hd s \<noteq> CHR ''-'')"

definition readNat :: "string \<Rightarrow> nat" where
  "readNat ds = foldl (\<lambda>n c. 10 * n + (of_char c - 48)) 0 ds"

function parseMods :: "string \<Rightarrow> simple list option" where
  "parseMods s =
     (case s of
        [] \<Rightarrow> Some []
      | c # cs \<Rightarrow>
          if c = CHR ''#'' \<or> c = CHR ''.'' then
            (let n = takeWhile isNameChar cs in
             if validName n
             then map_option ((#) (if c = CHR ''#'' then IdSel n else ClassSel n))
                    (parseMods (dropWhile isNameChar cs))
             else None)
          else if c = CHR '':'' \<and> take 12 cs = ''nth-of-type('' then
            (let ds = takeWhile isDigit (drop 12 cs); rest = dropWhile isDigit (drop 12 cs) in
             if ds \<noteq> [] \<and> take 1 rest = '')''
             then map_option ((#) (NthOfType (readNat ds))) (parseMods (drop 1 rest))
             else None)
          else if c = CHR ''['' then
            (let a = takeWhile isNameChar cs; r1 = dropWhile isNameChar cs;
                 v = takeWhile (\<lambda>x. x \<noteq> CHR 0x22 \<and> x \<noteq> CHR 0x5C) (drop 2 r1);
                 r2 = dropWhile (\<lambda>x. x \<noteq> CHR 0x22 \<and> x \<noteq> CHR 0x5C) (drop 2 r1) in
             if validName a \<and> take 2 r1 = [CHR ''='', CHR 0x22] \<and> take 2 r2 = [CHR 0x22, CHR '']'']
             then map_option ((#) (AttrSel a v)) (parseMods (drop 2 r2))
             else None)
          else None)"
  by pat_completeness auto
termination
proof (relation "measure length", goal_cases)
  case 1
  show ?case by simp
next
  case (2 s c cs n)
  then show ?case
    using length_dropWhile_le [of isNameChar cs] by simp
next
  case (3 s c cs ds rest)
  then show ?case
    using length_dropWhile_le [of isDigit "drop 12 cs"] by simp
next
  case (4 s c cs a r1 v r2)
  then show ?case
    using length_dropWhile_le [of isNameChar cs]
      length_dropWhile_le [of "\<lambda>x. x \<noteq> CHR 0x22 \<and> x \<noteq> CHR 0x5C" "drop 2 (dropWhile isNameChar cs)"]
    by simp
qed

declare parseMods.simps [simp del]

definition parseCompound :: "string \<Rightarrow> simple list option" where
  "parseCompound s =
     (let t = takeWhile isNameChar s; r = dropWhile isNameChar s in
      if t = [] then (if r = [] then None else parseMods r)
      else if validName t then map_option ((#) (TagSel (toLowerCase t))) (parseMods r)
      else None)"

fun splitOn :: "char \<Rightarrow> string \<Rightarrow> string \<Rightarrow> string list" where
  "splitOn d cur [] = [cur]"
| "splitOn d cur (c # cs) = (if c = d then cur # splitOn d [] cs else splitOn d (cur @ [c]) cs)"

definition trimCss :: "string \<Rightarrow> string" where
  "trimCss s = rev (dropWhile isCssSpace (rev (dropWhile isCssSpace s)))"

fun allSome :: "'a option list \<Rightarrow> 'a list option" where
  "allSome [] = Some []"
| "allSome (None # xs) = None"
| "allSome (Some x # xs) = map_option ((#) x) (allSome xs)"

definition parseSelector :: "string \<Rightarrow> simple list list option" where
  "parseSelector s = allSome (map (\<lambda>piece. parseCompound (trimCss piece)) (splitOn CHR ''>'' [] s))"

fun matchesSimple :: "root \<Rightarrow> path \<Rightarrow> edata \<Rightarrow> simple \<Rightarrow> bool" where
  "matchesSimple r p e (TagSel t) = (tagName e = t)"
| "matchesSimple r p e (IdSel i) = (elemId e = i)"
| "matchesSimple r p e (ClassSel c) = (c \<in> set (splitBy isCssSpace [] (className e)))"
| "matchesSimple r p e (NthOfType k) =
     (k = Suc (length (filter (hasTag (tagName e)) (take (last p) (siblingNodes r p)))))"
| "matchesSimple r p e (AttrSel a v) =
     (if a = ''id'' then elemId e \<noteq> [] \<and> elemId e = v
      else if a = ''class'' then className e \<noteq> [] \<and> className e = v
      else if a = ''name'' then nameProp e \<noteq> [] \<and> nameProp e = v
      else if a = ''for'' then htmlFor e \<noteq> [] \<and> htmlFor e = v
      else False)"

definition matchesCompound :: "root \<Rightarrow> path \<Rightarrow> simple list \<Rightarrow> bool" where
  "matchesCompound r p c =
     (case nodeAt r p of
        Some (Element e ch sh fr) \<Rightarrow> list_all (matchesSimple r p e) c
      | _ \<Rightarrow> False)"

text \<open>A chain of compounds joined by the child combinator, rightmost compound first.\<close>

fun matchesChain :: "root \<Rightarrow> simple list list \<Rightarrow> path \<Rightarrow> bool" where
  "matchesChain r [] p = False"
| "matchesChain r [c] p = matchesCompound r p c"
| "matchesChain r (c # d # cs) p =
     (matchesCompound r p c \<and> length p \<ge> 2 \<and> matchesChain r (d # cs) (butlast p))"

text \<open>The paths of the elements below a node and in a list of nodes, in document order.\<close>

fun elementPaths :: "node \<Rightarrow> path list" and elementPathsFrom :: "nat \<Rightarrow> node list \<Rightarrow> path list" where
  "elementPaths (Text s) = []"
| "elementPaths (Element e ch sh fr) = [] # elementPathsFrom 0 ch"
| "elementPathsFrom i [] = []"
| "elementPathsFrom i (n # ns) = map ((#) i) (elementPaths n) @ elementPathsFrom (Suc i) ns"

definition querySelectorAll :: engine where
  "querySelectorAll r s =
     (case parseSelector s of
        None \<Rightarrow> Inl SyntaxError
      | Some cs \<Rightarrow> Inr (filter (matchesChain r (rev cs)) (elementPathsFrom 0 r)))"

section \<open>Selector synthesis\<close>

subsection \<open>\<open>uniqueSelector\<close> (contentscript.ts)\<close>

text \<open>
  The \<open>while\<close> loop of \<open>uniqueSelector\<close>, from the element at path \<open>p\<close> upwards; \<open>paths\<close>
  is the array built so far.  The loop leaves by \<open>break\<close> when the class selector is
  unique in the context, and, before the fragment is stored, when the element has no
  parent element.
\<close>

function usLoop :: "engine \<Rightarrow> root \<Rightarrow> path \<Rightarrow> string list \<Rightarrow> exn + string list" where
  "usLoop qsa r p paths =
     (case nodeAt r p of
        Some (Element e ch sh fr) \<Rightarrow>
          (let tag = tagName e;
               cls = concat (map (\<lambda>c. CHR ''.'' # cssEscape c) (splitBy isSpace [] (className e)));
               selector = (if className e \<noteq> [] \<and> cls \<noteq> [] then tag @ cls else tag)
           in andThen (if className e \<noteq> [] \<and> cls \<noteq> []
                       then andThen (matchCount qsa r selector) (\<lambda>n. Inr (n = 1))
                       else Inr False)
                (\<lambda>unique.
                   if unique then Inr (selector # paths)
                   else if length p < 2 then Inr paths
                   else (let siblings = sameTagSiblings (siblingNodes r p) (tagName e);
                             selector' = (if length siblings > 1
                                then selector @ '':nth-of-type('' @
                                     showNat 10 (indexOf siblings (last p) + 1) @ '')''
                                else selector)
                         in usLoop qsa r (butlast p) (selector' # paths))))
      | _ \<Rightarrow> Inr paths)"
  by pat_completeness auto
termination
  by (relation "measure (\<lambda>(qsa, r, p, paths). length p)") auto

declare usLoop.simps [simp del]

definition uniqueSelector :: "engine \<Rightarrow> root \<Rightarrow> path \<Rightarrow> exn + string" where
  "uniqueSelector qsa r p =
     (case nodeAt r p of
        Some (Element e ch sh fr) \<Rightarrow>
          andThen (if elemId e \<noteq> []
                   then andThen (matchCount qsa r (CHR ''#'' # cssEscape (elemId e)))
                          (\<lambda>n. Inr (n = 1))
                   else Inr False)
            (\<lambda>unique.
               if unique then Inr (CHR ''#'' # cssEscape (elemId e))
               else andThen (usLoop qsa r p []) (\<lambda>paths. Inr (joinWith '' > '' paths)))
      | _ \<Rightarrow> Inr [])"

subsection \<open>\<open>buildUniqueSelector\<close> (part_007)\<close>

text \<open>\<open>el.classList\<close>: the class attribute's tokens, each once.\<close>

definition classList :: "string \<Rightarrow> string list" where
  "classList c = rev (remdups (rev (splitBy isCssSpace [] c)))"

function partsLoop :: "root \<Rightarrow> path \<Rightarrow> string list \<Rightarrow> string list" where
  "partsLoop r p parts =
     (case nodeAt r p of
        Some (Element e ch sh fr) \<Rightarrow>
          (let part = tagName e @
                 (if classList (className e) \<noteq> []
                  then CHR ''.'' # joinWith ''.'' (map cssEscape (classList (className e)))
                  else []);
               sameTagSiblings = sameTagSiblings (siblingNodes r p) (tagName e);
               part' = (if length p \<ge> 2 \<and> length sameTagSiblings > 1
                        then part @ '':nth-of-type('' @
                             showNat 10 (indexOf sameTagSiblings (last p) + 1) @ '')''
                        else part)
           in if length p < 2 then part' # parts else partsLoop r (butlast p) (part' # parts))
      | _ \<Rightarrow> parts)"
  by pat_completeness auto
termination
  by (relation "measure (\<lambda>(r, p, parts). length p)") auto

declare partsLoop.simps [simp del]

definition buildUniqueSelector :: "root \<Rightarrow> path \<Rightarrow> string" where
  "buildUniqueSelector r p =
     (case nodeAt r p of
        Some (Element e ch sh fr) \<Rightarrow>
          if elemId e \<noteq> [] then CHR ''#'' # cssEscape (elemId e)
          else joinWith '' > '' (partsLoop r p [])
      | _ \<Rightarrow> [])"

section \<open>Label text\<close>

text \<open>The selector \<open>label[for="${CSS.escape(id)}"]\<close>\<close>

definition labelFor :: "string \<Rightarrow> string" where
  "labelFor i = ''label[for='' @ [CHR 0x22] @ cssEscape i @ [CHR 0x22] @ '']''"

text \<open>
  \<open>el instanceof HTMLInputElement || el instanceof HTMLSelectElement ||
  el instanceof HTMLTextAreaElement\<close> for the element with the handle \<open>h\<close>.
\<close>

definition isFormControl :: "handle \<Rightarrow> edata \<Rightarrow> bool" where
  "isFormControl h e =
     (inScriptWindow h \<and>
      (tagName e = ''input'' \<or> tagName e = ''select'' \<or> tagName e = ''textarea''))"

subsection \<open>\<open>extractLabelText\<close> (contentscript.ts)\<close>

text \<open>
  The element has the handle \<open>h\<close> and is the one at path \<open>p\<close> of the context \<open>r\<close>; the
  label query goes to the global \<open>document\<close>, the top document.  The result is \<open>None\<close> for
  \<open>undefined\<close>.
\<close>

definition extractLabelText ::
  "engine \<Rightarrow> root \<Rightarrow> handle \<Rightarrow> root \<Rightarrow> path \<Rightarrow> exn + string option" where
  "extractLabelText qsa document h r p =
     (case nodeAt r p of
        Some (Element e ch sh fr) \<Rightarrow>
          andThen (if isFormControl h e \<and> elemId e \<noteq> []
                   then andThen (querySelector qsa document (labelFor (elemId e)))
                          (\<lambda>l. Inr (case l of None \<Rightarrow> None | Some lp \<Rightarrow> nodeAt document lp))
                   else Inr None)
            (\<lambda>l. case l of
                    Some lab \<Rightarrow> Inr (Some (trim (textContent lab)))
                  | None \<Rightarrow>
                      (case previousElementSibling r p of
                         Some prev \<Rightarrow>
                           if hasTag ''label'' prev then Inr (Some (trim (textContent prev)))
                           else Inr None
                       | None \<Rightarrow> Inr None))
      | _ \<Rightarrow> Inr None)"

subsection \<open>\<open>resolveLabelText\<close> (part_007)\<close>

text \<open>\<open>s || null\<close> for a string.\<close>

definition orNull :: "string \<Rightarrow> string option" where
  "orNull s = (if s = [] then None else Some s)"

text \<open>\<open>replace(/\s+/g, ' ')\<close>\<close>

fun collapseFrom :: "bool \<Rightarrow> string \<Rightarrow> string" where
  "collapseFrom inRun [] = []"
| "collapseFrom inRun (c # cs) =
     (if isSpace c then (if inRun then collapseFrom True cs else CHR '' '' # collapseFrom True cs)
      else c # collapseFrom False cs)"

definition collapseSpaces :: "string \<Rightarrow> string" where
  "collapseSpaces s = collapseFrom False s"

text \<open>The loop over \<open>parentElement\<close>, which stops at the first ancestor that is a \<open>label\<close>.\<close>

function ancestorLabel :: "root \<Rightarrow> path \<Rightarrow> node option" where
  "ancestorLabel r p =
     (if length p < 2 then None
      else (case nodeAt r (butlast p) of
              Some parent \<Rightarrow> if hasTag ''label'' parent then Some parent else ancestorLabel r (butlast p)
            | None \<Rightarrow> None))"
  by pat_completeness auto
termination
  by (relation "measure (\<lambda>(r, p). length p)") auto

declare ancestorLabel.simps [simp del]

text \<open>The label query goes to \<open>el.ownerDocument\<close>.  The result is \<open>None\<close> for \<open>null\<close>.\<close>

definition resolveLabelText :: "engine \<Rightarrow> root \<Rightarrow> root \<Rightarrow> path \<Rightarrow> exn + string option" where
  "resolveLabelText qsa ownerDocument r p =
     (case nodeAt r p of
        Some (Element e ch sh fr) \<Rightarrow>
          andThen (if elemId e \<noteq> []
                   then andThen (querySelector qsa ownerDocument (labelFor (elemId e)))
                          (\<lambda>lab. Inr (case lab of
                                         None \<Rightarrow> None
                                       | Some lp \<Rightarrow>
                                           (case nodeAt ownerDocument lp of
                                              None \<Rightarrow> None
                                            | Some n \<Rightarrow> orNull (trim (textContent n)))))
                   else Inr None)
            (\<lambda>labelText.
               Inr (map_option collapseSpaces
                     (case labelText of
                        Some t \<Rightarrow> Some t
                      | None \<Rightarrow>
                          (case ancestorLabel r p of
                             Some parent \<Rightarrow> orNull (trim (textContent parent))
                           | None \<Rightarrow> None))))
      | _ \<Rightarrow> Inr None)"

section \<open>Deep query (contentscript.ts)\<close>

text \<open>
  \<open>deepSelector.split(/\s*>>>\s*/)\<close>: \<open>rest\<close> is the text still to be read and \<open>cur\<close> the
  piece read since the last separator.  The expression matches at the head of \<open>rest\<close>
  when \<open>>>>\<close> follows the leading white space.
\<close>

function splitDeep :: "string \<Rightarrow> string \<Rightarrow> string list" where
  "splitDeep cur rest =
     (if rest = [] then [cur]
      else if take 3 (dropWhile isSpace rest) = ''>>>''
      then cur # splitDeep [] (dropWhile isSpace (drop 3 (dropWhile isSpace rest)))
      else splitDeep (cur @ [hd rest]) (tl rest))"
  by pat_completeness auto
termination
proof (relation "measure (\<lambda>(cur, rest). length rest)", goal_cases)
  case 1
  show ?case by simp
next
  case (2 cur rest)
  have "length (dropWhile isSpace (drop 3 (dropWhile isSpace rest)))
          \<le> length (drop 3 (dropWhile isSpace rest))"
    by (rule length_dropWhile_le)
  moreover from 2 have "length (dropWhile isSpace rest) \<ge> 3"
    by (metis length_take min.cobounded1 length_Cons list.size(3) numeral_3_eq_3)
  moreover have "length (dropWhile isSpace rest) \<le> length rest"
    by (rule length_dropWhile_le)
  ultimately show ?case by simp
next
  case (3 cur rest)
  then show ?case by (cases rest) simp_all
qed

declare splitDeep.simps [simp del]

text \<open>\<open>.map(p => p.trim()).filter(Boolean)\<close>\<close>

definition deepParts :: "string \<Rightarrow> string list" where
  "deepParts deepSelector = filter (\<lambda>p. p \<noteq> []) (map trim (splitDeep [] deepSelector))"

text \<open>
  \<open>isSameOriginIframe\<close>, after its comment: reading \<open>contentDocument\<close> fails only across
  origins.
\<close>

definition isSameOriginIframe :: "node \<Rightarrow> bool" where
  "isSameOriginIframe n = (case n of Element e ch sh CrossOrigin \<Rightarrow> False | _ \<Rightarrow> True)"

text \<open>
  The context a matched element leads into at an intermediate hop, if any.  The first
  test is \<open>match instanceof HTMLIFrameElement\<close>.
\<close>

definition nextRoot :: "handle \<times> node \<Rightarrow> ctx option" where
  "nextRoot m =
     (case m of (h, n) \<Rightarrow>
        if (inScriptWindow h \<and> hasTag ''iframe'' n) \<and> isSameOriginIframe n \<and>
           contentDocument n \<noteq> None
        then map_option (\<lambda>d. (h @ [FrameStep], d)) (contentDocument n)
        else map_option (\<lambda>sr. (h @ [ShadowStep], sr)) (shadowRoot n))"

text \<open>\<open>forEach\<close> over a list with a body that may throw, results appended in order.\<close>

fun collect :: "('a \<Rightarrow> exn + 'b list) \<Rightarrow> 'a list \<Rightarrow> exn + 'b list" where
  "collect f [] = Inr []"
| "collect f (x # xs) = andThen (f x) (\<lambda>ys. andThen (collect f xs) (\<lambda>zs. Inr (ys @ zs)))"

text \<open>\<open>Array.from(ctx.querySelectorAll(part))\<close>, each element with its handle.\<close>

definition matchesIn :: "engine \<Rightarrow> string \<Rightarrow> ctx \<Rightarrow> exn + (handle \<times> node) list" where
  "matchesIn qsa part c =
     (case c of (h, r) \<Rightarrow>
        andThen (qsa r part)
          (\<lambda>ms. Inr (List.map_filter
                      (\<lambda>p. map_option (\<lambda>n. (h @ map Child p, n)) (nodeAt r p)) ms)))"

text \<open>\<open>n instanceof Element\<close> for a match.\<close>

definition instanceofElement :: "handle \<times> node \<Rightarrow> bool" where
  "instanceofElement m =
     (case m of (h, n) \<Rightarrow>
        inScriptWindow h \<and> (case n of Element e ch sh fr \<Rightarrow> True | Text s \<Rightarrow> False))"

text \<open>
  The \<open>for\<close> loop over the parts; \<open>isLast\<close> is \<open>parts = []\<close> for the remaining parts.  At
  the last part \<open>nextContexts\<close> holds the matches, and the result is
  \<open>nextContexts.filter(n => n instanceof Element)\<close>.  At an earlier part it holds
  documents and shadow roots only, none of which is an \<open>Element\<close>, so the filter
  \<open>!(n instanceof Element)\<close> keeps all of them.
\<close>

fun queryLoop :: "engine \<Rightarrow> string list \<Rightarrow> ctx list \<Rightarrow> exn + handle list" where
  "queryLoop qsa [] currentContexts = Inr []"
| "queryLoop qsa (part # parts) currentContexts =
     andThen (collect (matchesIn qsa part) currentContexts)
       (\<lambda>ms. if parts = []
              then (if ms = [] then Inr [] else Inr (map fst (filter instanceofElement ms)))
              else (let nextContexts = List.map_filter nextRoot ms in
                    if nextContexts = [] then Inr [] else queryLoop qsa parts nextContexts))"

definition queryDeepAll :: "engine \<Rightarrow> root \<Rightarrow> string \<Rightarrow> exn + handle list" where
  "queryDeepAll qsa document deepSelector =
     (let parts = deepParts deepSelector in
      if parts = [] then Inr [] else queryLoop qsa parts [([], document)])"

section \<open>Scanning (contentscript.ts)\<close>

text \<open>\<open>Required<ScanOptions>\<close>, with a depth bound that is not negative.\<close>

record ScanOptions =
  includeShadowDom :: bool
  maxDepth :: nat
  iframeTraversal :: bool

definition DEFAULT_OPTIONS :: ScanOptions where
  "DEFAULT_OPTIONS = \<lparr>includeShadowDom = True, maxDepth = 7, iframeTraversal = True\<rparr>"

text \<open>The \<open>FieldInfo\<close> objects that \<open>scanDOM\<close> builds.\<close>

record ScannedField =
  sf_selector :: string
  sf_tag :: string
  sf_type :: string
  sf_nameAttr :: "string option"
  sf_label :: "string option"

text \<open>
  The test of \<open>traverse\<close> for a field: the three \<open>instanceof\<close> tests or
  \<open>el.isContentEditable\<close>.
\<close>

definition isFillable :: "handle \<Rightarrow> edata \<Rightarrow> bool" where
  "isFillable h e = (isFormControl h e \<or> isContentEditable e)"

definition fieldInfo ::
  "engine \<Rightarrow> root \<Rightarrow> handle \<Rightarrow> root \<Rightarrow> path \<Rightarrow> string list \<Rightarrow> edata \<Rightarrow> exn + ScannedField" where
  "fieldInfo qsa document h r p pathParts e =
     andThen (uniqueSelector qsa r p)
       (\<lambda>selector.
          andThen (extractLabelText qsa document h r p)
            (\<lambda>l. Inr \<lparr>sf_selector = (if pathParts \<noteq> []
                                       then joinWith '' >>> '' pathParts @ '' >>> '' @ selector
                                       else selector),
                       sf_tag = tagName e,
                       sf_type = (if typeProp e \<noteq> [] then typeProp e else tagName e),
                       sf_nameAttr = (if nameProp e \<noteq> [] then Some (nameProp e) else None),
                       sf_label = l\<rparr>))"

text \<open>
  \<open>traverse(node, depth, rootForSelector, pathParts)\<close> for a text node or an element
  \<open>node\<close>, and the \<open>forEach\<close> over a list of child nodes from index \<open>i\<close> on.  The element
  has the handle \<open>h\<close> and the path \<open>p\<close> in the context \<open>r\<close>, which is \<open>rootForSelector\<close>.
  For a document or a shadow root \<open>traverse\<close> only checks the depth and goes on to the
  child nodes one level deeper, which is written out at the three places where one is
  entered.  The shadow root \<open>sr\<close> is entered under \<open>cfg.includeShadowDom && el.shadowRoot\<close>.
  Each descriptor comes with the handle of the element it was made for.
\<close>

fun traverse ::
  "engine \<Rightarrow> ScanOptions \<Rightarrow> root \<Rightarrow> handle \<Rightarrow> root \<Rightarrow> path \<Rightarrow> string list \<Rightarrow> nat \<Rightarrow> node
     \<Rightarrow> exn + (handle \<times> ScannedField) list"
and traverseAll ::
  "engine \<Rightarrow> ScanOptions \<Rightarrow> root \<Rightarrow> handle \<Rightarrow> root \<Rightarrow> path \<Rightarrow> string list \<Rightarrow> nat \<Rightarrow> nat
     \<Rightarrow> node list \<Rightarrow> exn + (handle \<times> ScannedField) list"
where
  "traverse qsa cfg document h r p pathParts depth (Text s) = Inr []"
| "traverse qsa cfg document h r p pathParts depth (Element e ch sh fr) =
     (if depth > maxDepth cfg then Inr []
      else
        andThen (if isFillable h e
                 then andThen (fieldInfo qsa document h r p pathParts e) (\<lambda>info. Inr [(h, info)])
                 else Inr [])
        (\<lambda>own.
        andThen (case sh of
                   Some sr \<Rightarrow>
                     if includeShadowDom cfg \<and> shadowRoot (Element e ch sh fr) \<noteq> None
                     then andThen (uniqueSelector qsa r p)
                            (\<lambda>hostSelector.
                               if depth + 1 > maxDepth cfg then Inr []
                               else traverseAll qsa cfg document (h @ [ShadowStep]) sr []
                                      (pathParts @ [hostSelector]) (depth + 2) 0 sr)
                     else Inr []
                 | None \<Rightarrow> Inr [])
        (\<lambda>inShadow.
        andThen (case fr of
                   SameOrigin d \<Rightarrow>
                     if iframeTraversal cfg \<and> tagName e = ''iframe''
                     then andThen (uniqueSelector qsa r p)
                            (\<lambda>iframeSelector.
                               if depth + 1 > maxDepth cfg then Inr []
                               else traverseAll qsa cfg document (h @ [FrameStep]) d []
                                      (pathParts @ [iframeSelector]) (depth + 2) 0 d)
                     else Inr []
                 | _ \<Rightarrow> Inr [])
        (\<lambda>inFrame.
        andThen (traverseAll qsa cfg document h r p pathParts (depth + 1) 0 ch)
        (\<lambda>below. Inr (own @ inShadow @ inFrame @ below))))))"
| "traverseAll qsa cfg document h r p pathParts depth i [] = Inr []"
| "traverseAll qsa cfg document h r p pathParts depth i (n # ns) =
     andThen (traverse qsa cfg document (h @ [Child i]) r (p @ [i]) pathParts depth n)
       (\<lambda>first. andThen (traverseAll qsa cfg document h r p pathParts depth (Suc i) ns)
                  (\<lambda>others. Inr (first @ others)))"

text \<open>\<open>traverse(document, 0, document, [])\<close>: depth 0 passes the check.\<close>

definition scanned :: "engine \<Rightarrow> ScanOptions \<Rightarrow> root \<Rightarrow> exn + (handle \<times> ScannedField) list" where
  "scanned qsa cfg document = traverseAll qsa cfg document [] document [] [] 1 0 document"

definition scanDOM :: "engine \<Rightarrow> ScanOptions \<Rightarrow> root \<Rightarrow> exn + ScannedField list" where
  "scanDOM qsa cfg document = andThen (scanned qsa cfg document) (\<lambda>rs. Inr (map snd rs))"

section \<open>Element resolution (formfiller.ts)\<close>

text \<open>A hop of \<open>framePath\<close>: a number or a string.\<close>

datatype hop = FrameIndex int | HostSelector string

record FieldMapping =
  fm_selector :: string
  fm_column :: string
  fm_type :: string
  framePath :: "hop list"

text \<open>
  The loop of \<open>_resolveElement\<close> over \<open>map.framePath\<close>, with the variables \<open>ctx\<close> and
  \<open>currentWin\<close> (a window is given by its document).  \<open>Inr None\<close> is the early
  \<open>return null\<close>; \<open>Inr (Some c)\<close> is the value of \<open>ctx\<close> when the loop ends, itself
  possibly null.  Reading \<open>document\<close> of a cross-origin window throws.
\<close>

fun walkHops :: "engine \<Rightarrow> hop list \<Rightarrow> ctx option \<Rightarrow> ctx \<Rightarrow> exn + ctx option option" where
  "walkHops qsa [] c currentWin = Inr (Some c)"
| "walkHops qsa (FrameIndex k # hops) c currentWin =
     (case currentWin of (wh, wr) \<Rightarrow>
        andThen (qsa wr ''iframe'')
          (\<lambda>iframes.
             if k < 0 \<or> length iframes \<le> nat k then Inr None
             else (case nodeAt wr (iframes ! nat k) of
                     None \<Rightarrow> Inr None
                   | Some n \<Rightarrow>
                       (case contentWindow n of
                          NoWindow \<Rightarrow> Inr None
                        | CrossOrigin \<Rightarrow> Inl SecurityError
                        | SameOrigin d \<Rightarrow>
                            (let w = (wh @ map Child (iframes ! nat k) @ [FrameStep], d)
                             in walkHops qsa hops (Some w) w)))))"
| "walkHops qsa (HostSelector s # hops) c currentWin =
     (case c of
        None \<Rightarrow> walkHops qsa hops None currentWin
      | Some (h, r) \<Rightarrow>
          andThen (querySelector qsa r s)
            (\<lambda>host.
               case host of
                 None \<Rightarrow> walkHops qsa hops None currentWin
               | Some hp \<Rightarrow>
                   (case nodeAt r hp of
                      None \<Rightarrow> walkHops qsa hops None currentWin
                    | Some n \<Rightarrow>
                        walkHops qsa hops
                          (map_option (\<lambda>sr. (h @ map Child hp @ [ShadowStep], sr)) (shadowRoot n))
                          currentWin)))"

text \<open>\<open>_resolveElement\<close>: the handle of the element, or \<open>None\<close> for \<open>null\<close>.\<close>

definition resolveElement :: "engine \<Rightarrow> root \<Rightarrow> FieldMapping \<Rightarrow> exn + handle option" where
  "resolveElement qsa document m =
     andThen (walkHops qsa (framePath m) (Some ([], document)) ([], document))
       (\<lambda>w. case w of
               None \<Rightarrow> Inr None
             | Some None \<Rightarrow> Inr None
             | Some (Some (h, r)) \<Rightarrow>
                 andThen (querySelector qsa r (fm_selector m))
                   (\<lambda>found. Inr (map_option (\<lambda>p. h @ map Child p) found)))"

section \<open>Mutation observation (contentscript.ts)\<close>

text \<open>
  The variable \<open>debounceTimer\<close> of \<open>observeMutations\<close> together with the part of the
  platform it talks to: the table of armed timers (identifier and remaining delay in
  milliseconds), the next identifier \<open>setTimeout\<close> hands out, and the number of times
  the timer callback has run \<open>scanDOM()\<close>.  Callbacks run to completion one after the
  other, so a run of the page is a sequence of events: a call of the observer's callback,
  or time passing without one.
\<close>

record monitor =
  debounceTimer :: "nat option"
  timers :: "(nat \<times> nat) list"
  nextTimer :: nat
  scans :: nat

definition clearTimeout :: "nat \<Rightarrow> (nat \<times> nat) list \<Rightarrow> (nat \<times> nat) list" where
  "clearTimeout t ts = filter (\<lambda>(i, d). i \<noteq> t) ts"

text \<open>The callback handed to \<open>new MutationObserver\<close>.\<close>

definition onMutation :: "monitor \<Rightarrow> monitor" where
  "onMutation s =
     (let ts = (case debounceTimer s of None \<Rightarrow> timers s | Some t \<Rightarrow> clearTimeout t (timers s))
      in s\<lparr>debounceTimer := Some (nextTimer s),
            timers := ts @ [(nextTimer s, 300)],
            nextTimer := Suc (nextTimer s)\<rparr>)"

text \<open>
  \<open>ms\<close> milliseconds pass without a mutation callback: every timer that is due fires
  (each firing runs \<open>scanDOM()\<close> to completion), the others get closer.
\<close>

definition elapse :: "nat \<Rightarrow> monitor \<Rightarrow> monitor" where
  "elapse ms s =
     s\<lparr>timers := map (\<lambda>(i, d). (i, d - ms)) (filter (\<lambda>(i, d). ms < d) (timers s)),
       scans := scans s + length (filter (\<lambda>(i, d). d \<le> ms) (timers s))\<rparr>"

datatype event = Mutation | Elapse nat

fun handleEvent :: "event \<Rightarrow> monitor \<Rightarrow> monitor" where
  "handleEvent Mutation s = onMutation s"
| "handleEvent (Elapse ms) s = elapse ms s"

definition run :: "event list \<Rightarrow> monitor \<Rightarrow> monitor" where
  "run es s = fold handleEvent es s"

text \<open>The state that \<open>observeMutations()\<close> sets up.\<close>

definition observeMutations :: monitor where
  "observeMutations = \<lparr>debounceTimer = None, timers = [], nextTimer = 1, scans = 0\<rparr>"

section \<open>Notions of the specification and of the proofs\<close>

subsection \<open>Loop invariants of the auto-mapper\<close>

text \<open>
  The body of the inner loop of \<open>autoMap\<close> as a function of its own, and the invariants
  of the two loops.
\<close>

definition bestStep ::
  "ColumnName list \<Rightarrow> string set \<Rightarrow> string set \<Rightarrow> nat \<Rightarrow> int \<times> rat \<Rightarrow> int \<times> rat" where
  "bestStep headers usedHeaders fieldTokens i st = (case st of (bestIdx, bestScore) \<Rightarrow>
             if headers ! i \<in> usedHeaders then (bestIdx, bestScore)
             else (let score = jaccard fieldTokens (set (tokenize (headers ! i))) in
                   if score > bestScore then (int i, score) else (bestIdx, bestScore)))"

definition bestInv :: "ColumnName list \<Rightarrow> string set \<Rightarrow> string set \<Rightarrow> int \<times> rat \<Rightarrow> bool" where
  "bestInv headers usedHeaders fieldTokens st = (case st of (bi, bs) \<Rightarrow>
     bi = - 1 \<or> (0 \<le> bi \<and> nat bi < length headers \<and> headers ! nat bi \<notin> usedHeaders \<and>
        bs = jaccard fieldTokens (set (tokenize (headers ! nat bi)))))"

definition autoInv :: "FieldInfo set \<Rightarrow> ColumnName list \<Rightarrow> Mapping \<times> string set \<Rightarrow> bool" where
  "autoInv F headers st = (case st of (m, used) \<Rightarrow>
     (\<forall>s h. m s = Some h \<longrightarrow> h \<in> used) \<and>
     (\<forall>s1 s2 h. m s1 = Some h \<and> m s2 = Some h \<longrightarrow> s1 = s2) \<and>
     (\<forall>s h. m s = Some h \<longrightarrow> h \<in> set headers \<and>
        (\<exists>f\<in>F. selector f = s \<and> fieldText f \<noteq> [] \<and>
           2 / 10 \<le> jaccard (set (tokenize (fieldText f))) (set (tokenize h)))))"

subsection \<open>Bursts of mutations\<close>

text \<open>
  A burst of \<open>N = length gaps + 1\<close> mutation callbacks: the first one, then one more after
  each of the given gaps (in milliseconds).
\<close>

definition burst :: "nat list \<Rightarrow> event list" where
  "burst gaps = Mutation # concat (map (\<lambda>g. [Elapse g, Mutation]) gaps)"

text \<open>The debounce timer is pending with its full delay.\<close>

definition armed :: "monitor \<Rightarrow> bool" where
  "armed s = (\<exists>t. debounceTimer s = Some t \<and> timers s = [(t, 300)])"

subsection \<open>Deep queries\<close>

text \<open>A string made of the delimiter \<open>>>>\<close> and white space only.\<close>

fun onlyDelims :: "string \<Rightarrow> bool" where
  "onlyDelims [] = True"
| "onlyDelims (c # cs) =
     (if isSpace c then onlyDelims cs
      else c = CHR ''>'' \<and> take 2 cs = ''>>'' \<and> onlyDelims (drop 2 cs))"

text \<open>
  The evaluation of a deep query as the specification words it.  The candidates of a
  fragment in a context are the elements it matches there.  A boundary is an accessible
  same-origin iframe or a shadow host, and it leads into its document or its shadow
  root.  Fragment 0 is evaluated against the initial context; for each subsequent
  fragment the candidates that are no boundaries are dropped and each surviving boundary
  contributes its matches; the matches of the last fragment are the result.
\<close>

definition isElement :: "node \<Rightarrow> bool" where
  "isElement n = (case n of Element e ch sh fr \<Rightarrow> True | Text s \<Rightarrow> False)"

definition matched :: "engine \<Rightarrow> string \<Rightarrow> ctx \<Rightarrow> (handle \<times> node) list" where
  "matched qsa f c = (case matchesIn qsa f c of Inr ms \<Rightarrow> ms | Inl x \<Rightarrow> [])"

definition candidates :: "engine \<Rightarrow> string \<Rightarrow> ctx \<Rightarrow> (handle \<times> node) list" where
  "candidates qsa f c = filter (\<lambda>m. isElement (snd m)) (matched qsa f c)"

definition isBoundary :: "node \<Rightarrow> bool" where
  "isBoundary n = (contentDocument n \<noteq> None \<or> shadowRoot n \<noteq> None)"

definition enter :: "handle \<times> node \<Rightarrow> ctx" where
  "enter m =
     (case m of (h, n) \<Rightarrow>
        (case contentDocument n of
           Some d \<Rightarrow> (h @ [FrameStep], d)
         | None \<Rightarrow> (case shadowRoot n of Some sr \<Rightarrow> (h @ [ShadowStep], sr) | None \<Rightarrow> (h, []))))"

fun deepEval :: "engine \<Rightarrow> ctx list \<Rightarrow> string list \<Rightarrow> (handle \<times> node) list" where
  "deepEval qsa cs [] = []"
| "deepEval qsa cs [f] = concat (map (candidates qsa f) cs)"
| "deepEval qsa cs (f # g # fs) =
     deepEval qsa (map enter (filter (\<lambda>m. isBoundary (snd m)) (concat (map (candidates qsa f) cs))))
       (g # fs)"

subsection \<open>The label rules\<close>

text \<open>
  The three rules of the specification: (1) a label associated with the field through
  its id, which is the first label of the document, in document order, whose \<open>for\<close>
  attribute is the id of the field, (2) the nearest enclosing label ancestor, (3) an
  immediately preceding sibling label; and the first rule that matches.
\<close>

definition labelsFor :: "root \<Rightarrow> string \<Rightarrow> path list" where
  "labelsFor document i =
     filter (\<lambda>q. case nodeAt document q of
                   Some (Element e ch sh fr) \<Rightarrow> tagName e = ''label'' \<and> htmlFor e = i
                 | _ \<Rightarrow> False)
       (elementPathsFrom 0 document)"

definition idLabel :: "root \<Rightarrow> edata \<Rightarrow> node option" where
  "idLabel document e =
     (if elemId e = [] then None
      else (case labelsFor document (elemId e) of [] \<Rightarrow> None | q # _ \<Rightarrow> nodeAt document q))"

text \<open>The \<open>input\<close>, \<open>select\<close> and \<open>textarea\<close> elements.\<close>

definition isControlTag :: "edata \<Rightarrow> bool" where
  "isControlTag e =
     (tagName e = ''input'' \<or> tagName e = ''select'' \<or> tagName e = ''textarea'')"

definition enclosingLabel :: "root \<Rightarrow> path \<Rightarrow> node option" where
  "enclosingLabel r p =
     (case filter (\<lambda>q. case nodeAt r q of Some n \<Rightarrow> hasTag ''label'' n | None \<Rightarrow> False)
             (rev (map (\<lambda>k. take k p) [1..<length p])) of
        [] \<Rightarrow> None
      | q # _ \<Rightarrow> nodeAt r q)"

definition precedingLabel :: "root \<Rightarrow> path \<Rightarrow> node option" where
  "precedingLabel r p =
     (case previousElementSibling r p of
        Some n \<Rightarrow> if hasTag ''label'' n then Some n else None
      | None \<Rightarrow> None)"

fun firstMatch :: "'a option list \<Rightarrow> 'a option" where
  "firstMatch [] = None"
| "firstMatch (Some x # xs) = Some x"
| "firstMatch (None # xs) = firstMatch xs"

text \<open>The trimmed text of a label, and the same when only a non-empty text counts.\<close>

definition labelText :: "node \<Rightarrow> string" where
  "labelText n = trim (textContent n)"

definition nonEmptyLabelText :: "node option \<Rightarrow> string option" where
  "nonEmptyLabelText l = (case l of None \<Rightarrow> None | Some n \<Rightarrow> orNull (trim (textContent n)))"

subsection \<open>Fillable elements by depth\<close>

text \<open>
  A fillable element as the specification has it: an input, a select, a textarea or an
  editable region.
\<close>

definition isField :: "handle \<Rightarrow> edata \<Rightarrow> bool" where
  "isField h e = (isControlTag e \<or> isContentEditable e)"

text \<open>A fillable element that is an editable region or lies in no frame document.\<close>

definition isPlainField :: "handle \<Rightarrow> edata \<Rightarrow> bool" where
  "isPlainField h e = (isField h e \<and> (isContentEditable e \<or> inScriptWindow h))"

text \<open>
  The handles of the elements below a node, and in a list of child nodes from index \<open>i\<close>
  on, that pass a test, in the order of the scan: the element itself, its shadow root,
  its frame document, its children.  Shadow roots and frame documents count when the
  options enable them; a frame document counts when it is accessible.  There is no
  depth bound.
\<close>

fun fieldsIn :: "(handle \<Rightarrow> edata \<Rightarrow> bool) \<Rightarrow> ScanOptions \<Rightarrow> handle \<Rightarrow> node \<Rightarrow> handle list"
and fieldsAmong ::
  "(handle \<Rightarrow> edata \<Rightarrow> bool) \<Rightarrow> ScanOptions \<Rightarrow> handle \<Rightarrow> nat \<Rightarrow> node list \<Rightarrow> handle list"
where
  "fieldsIn t cfg h (Text s) = []"
| "fieldsIn t cfg h (Element e ch sh fr) =
     (if t h e then [h] else []) @
     (case sh of
        Some sr \<Rightarrow>
          if includeShadowDom cfg \<and> shadowRoot (Element e ch sh fr) \<noteq> None
          then fieldsAmong t cfg (h @ [ShadowStep]) 0 sr else []
      | None \<Rightarrow> []) @
     (case fr of
        SameOrigin d \<Rightarrow>
          if iframeTraversal cfg \<and> tagName e = ''iframe''
          then fieldsAmong t cfg (h @ [FrameStep]) 0 d else []
      | _ \<Rightarrow> []) @
     fieldsAmong t cfg h 0 ch"
| "fieldsAmong t cfg h i [] = []"
| "fieldsAmong t cfg h i (n # ns) =
     fieldsIn t cfg (h @ [Child i]) n @ fieldsAmong t cfg h (Suc i) ns"

text \<open>All the fillable elements of a page, and those among them that are plain.\<close>

definition fillableHandles :: "ScanOptions \<Rightarrow> root \<Rightarrow> handle list" where
  "fillableHandles cfg document = fieldsAmong isField cfg [] 0 document"

definition plainHandles :: "ScanOptions \<Rightarrow> root \<Rightarrow> handle list" where
  "plainHandles cfg document = fieldsAmong isPlainField cfg [] 0 document"

subsection \<open>Example pages\<close>

text \<open>An element with a tag name and child nodes only, and one that hosts a shadow root.\<close>

definition plain :: "string \<Rightarrow> node list \<Rightarrow> node" where
  "plain t ch = Element \<lparr>tagName = t, elemId = [], className = [], typeProp = [], nameProp = [],
      htmlFor = [], isContentEditable = False\<rparr> ch None NoWindow"

definition host :: "string \<Rightarrow> node list \<Rightarrow> node" where
  "host t sr = Element \<lparr>tagName = t, elemId = [], className = [], typeProp = [], nameProp = [],
      htmlFor = [], isContentEditable = False\<rparr> [] (Some sr) NoWindow"

text \<open>A text input without id or class, and one with an id.\<close>

definition textInput :: node where
  "textInput = Element \<lparr>tagName = ''input'', elemId = [], className = [], typeProp = ''text'',
      nameProp = [], htmlFor = [], isContentEditable = False\<rparr> [] None NoWindow"

definition inputWithId :: "string \<Rightarrow> node" where
  "inputWithId i = Element \<lparr>tagName = ''input'', elemId = i, className = [], typeProp = ''text'',
      nameProp = [], htmlFor = [], isContentEditable = False\<rparr> [] None NoWindow"

text \<open>A page whose body holds a custom element with one input in its shadow root.\<close>

definition widgetPage :: root where
  "widgetPage =
     [plain ''html'' [plain ''head'' [],
        plain ''body'' [host ''my-widget'' [textInput]]]]"

text \<open>A page with two inputs in the body and two more in a shadow root.\<close>

definition twoInputsPage :: root where
  "twoInputsPage =
     [plain ''html'' [plain ''head'' [],
        plain ''body'' [textInput, textInput,
                        host ''my-widget'' [textInput, textInput]]]]"

text \<open>A label with a \<open>for\<close> attribute and a text.\<close>

definition labelOf :: "string \<Rightarrow> string \<Rightarrow> node" where
  "labelOf i t = Element \<lparr>tagName = ''label'', elemId = [], className = [], typeProp = [],
      nameProp = [], htmlFor = i, isContentEditable = False\<rparr> [Text t] None NoWindow"

text \<open>
  An input wrapped in its label, an input that follows its label, and an input with an
  id that is wrapped in one label and named by the \<open>for\<close> attribute of another.
\<close>

definition wrappedPage :: root where
  "wrappedPage =
     [plain ''html'' [plain ''head'' [],
        plain ''body'' [plain ''label'' [Text ''Name'', textInput]]]]"

definition precededPage :: root where
  "precededPage =
     [plain ''html'' [plain ''head'' [],
        plain ''body'' [plain ''label'' [Text ''Name''], textInput]]]"

definition linkedPage :: root where
  "linkedPage =
     [plain ''html'' [plain ''head'' [],
        plain ''body'' [labelOf ''email'' ''E-mail'',
                        plain ''label'' [Text ''Other'', inputWithId ''email'']]]]"

text \<open>
  An editable region with an id, an element that holds a same-origin frame document, and
  a page whose body holds an input and an iframe with an input and an editable region
  in the body of its document.
\<close>

definition editable :: "string \<Rightarrow> node" where
  "editable i = Element \<lparr>tagName = ''div'', elemId = i, className = [], typeProp = [],
      nameProp = [], htmlFor = [], isContentEditable = True\<rparr> [] None NoWindow"

definition iframe :: "root \<Rightarrow> node" where
  "iframe d = Element \<lparr>tagName = ''iframe'', elemId = [], className = [], typeProp = [],
      nameProp = [], htmlFor = [], isContentEditable = False\<rparr> [] None (SameOrigin d)"

definition framePage :: root where
  "framePage =
     [plain ''html'' [plain ''head'' [],
        plain ''body'' [textInput,
                        iframe [plain ''html'' [plain ''body'' [textInput, editable []]]]]]]"

text \<open>
  An editable region with an id that is followed by a label for that id; an input with an
  id that is wrapped in one label and named by the \<open>for\<close> attribute of another, which is
  blank; and a custom element whose shadow root holds an input with an id followed by a
  label for that id.
\<close>

definition editablePage :: root where
  "editablePage =
     [plain ''html'' [plain ''head'' [],
        plain ''body'' [editable ''bio'', labelOf ''bio'' ''Bio'']]]"

definition blankLabelPage :: root where
  "blankLabelPage =
     [plain ''html'' [plain ''head'' [],
        plain ''body'' [labelOf ''email'' '' '',
                        plain ''label'' [Text ''Other'', inputWithId ''email'']]]]"

definition shadowLabelPage :: root where
  "shadowLabelPage =
     [plain ''html'' [plain ''head'' [],
        plain ''body'' [host ''my-widget'' [inputWithId ''email'', labelOf ''email'' ''E-mail'']]]]"
section \<open>Properties of the mapping engine\<close>

lemma setProperty_Some:
  "setProperty m k v s = Some h \<Longrightarrow> (s = k \<and> h = v \<and> k \<noteq> ''__proto__'') \<or> m s = Some h"
  by (auto simp: setProperty_def split: if_splits)

text \<open>
  The loop of \<open>generateMapping\<close> after \<open>k\<close> rounds: the keys are the selectors of the first
  \<open>k\<close> fields other than \<open>__proto__\<close>, and such a selector has the column of the last of
  these fields that bears it.
\<close>

lemma generateMapping_loop:
  "k \<le> length fs \<Longrightarrow>
   dom (fold (\<lambda>i mapping. setProperty mapping (selector (fs ! i)) (columns ! i)) [0..<k] Map.empty)
     = selector ` set (take k fs) - {''__proto__''} \<and>
   (\<forall>i<k. selector (fs ! i) \<noteq> ''__proto__'' \<longrightarrow>
      (\<forall>j. i < j \<and> j < k \<longrightarrow> selector (fs ! j) \<noteq> selector (fs ! i)) \<longrightarrow>
      fold (\<lambda>i mapping. setProperty mapping (selector (fs ! i)) (columns ! i)) [0..<k] Map.empty
        (selector (fs ! i)) = Some (columns ! i))"
proof (induction k)
  case 0
  then show ?case by simp
next
  case (Suc k)
  let ?F = "\<lambda>i mapping. setProperty mapping (selector (fs ! i)) (columns ! i)"
  let ?m = "fold ?F [0..<k] Map.empty"
  from Suc.prems have k: "k < length fs" and kle: "k \<le> length fs" by simp_all
  note IH = Suc.IH [OF kle]
  from IH have IH1: "dom ?m = selector ` set (take k fs) - {''__proto__''}" by (rule conjunct1)
  from IH have IH2: "\<forall>i<k. selector (fs ! i) \<noteq> ''__proto__'' \<longrightarrow>
                (\<forall>j. i < j \<and> j < k \<longrightarrow> selector (fs ! j) \<noteq> selector (fs ! i)) \<longrightarrow>
                ?m (selector (fs ! i)) = Some (columns ! i)" by (rule conjunct2)
  have step: "fold ?F [0..<Suc k] Map.empty = setProperty ?m (selector (fs ! k)) (columns ! k)"
    by simp
  have d: "dom (fold ?F [0..<Suc k] Map.empty) = selector ` set (take (Suc k) fs) - {''__proto__''}"
    unfolding step using k IH1 by (auto simp: take_Suc_conv_app_nth setProperty_def)
  have v: "\<forall>i<Suc k. selector (fs ! i) \<noteq> ''__proto__'' \<longrightarrow>
      (\<forall>j. i < j \<and> j < Suc k \<longrightarrow> selector (fs ! j) \<noteq> selector (fs ! i)) \<longrightarrow>
      fold ?F [0..<Suc k] Map.empty (selector (fs ! i)) = Some (columns ! i)"
  proof (intro allI impI)
    fix i assume i: "i < Suc k" and np: "selector (fs ! i) \<noteq> ''__proto__''"
      and later: "\<forall>j. i < j \<and> j < Suc k \<longrightarrow> selector (fs ! j) \<noteq> selector (fs ! i)"
    show "fold ?F [0..<Suc k] Map.empty (selector (fs ! i)) = Some (columns ! i)"
    proof (cases "i = k")
      case True
      with np show ?thesis by (simp only: step) (simp add: setProperty_def)
    next
      case False
      with i have ik: "i < k" by simp
      with later have ne: "selector (fs ! k) \<noteq> selector (fs ! i)" by simp
      from later have "\<forall>j. i < j \<and> j < k \<longrightarrow> selector (fs ! j) \<noteq> selector (fs ! i)" by simp
      with IH2 ik np have "?m (selector (fs ! i)) = Some (columns ! i)" by blast
      with ne show ?thesis by (simp only: step) (simp add: setProperty_def)
    qed
  qed
  from d v show ?case by blast
qed

text \<open>
  \<open>generateMapping\<close> throws exactly when the two arrays differ in length.  When the
  lengths agree, the keys of the mapping it returns are the fields' selectors other than
  \<open>__proto__\<close>, and such a selector of \<open>fields[i]\<close> is assigned \<open>columns[i]\<close> unless a later
  field has the same selector.
\<close>

lemma generateMapping_own_properties:
  "((\<exists>e. generateMapping fs columns = Inl e) = (length fs \<noteq> length columns)) \<and>
   (length fs = length columns \<longrightarrow>
      (\<exists>m. generateMapping fs columns = Inr m \<and>
           dom m = selector ` set fs - {''__proto__''} \<and>
           (\<forall>i<length fs. selector (fs ! i) \<noteq> ''__proto__'' \<longrightarrow>
              (\<forall>j. i < j \<and> j < length fs \<longrightarrow> selector (fs ! j) \<noteq> selector (fs ! i)) \<longrightarrow>
              m (selector (fs ! i)) = Some (columns ! i))))"
proof (intro conjI impI)
  show "(\<exists>e. generateMapping fs columns = Inl e) = (length fs \<noteq> length columns)"
    by (simp add: generateMapping_def)
next
  assume len: "length fs = length columns"
  have "generateMapping fs columns =
        Inr (fold (\<lambda>i mapping. setProperty mapping (selector (fs ! i)) (columns ! i))
               [0..<length fs] Map.empty)"
    using len by (simp add: generateMapping_def)
  moreover note generateMapping_loop [of "length fs" fs columns]
  ultimately show "\<exists>m. generateMapping fs columns = Inr m \<and>
           dom m = selector ` set fs - {''__proto__''} \<and>
           (\<forall>i<length fs. selector (fs ! i) \<noteq> ''__proto__'' \<longrightarrow>
              (\<forall>j. i < j \<and> j < length fs \<longrightarrow> selector (fs ! j) \<noteq> selector (fs ! i)) \<longrightarrow>
              m (selector (fs ! i)) = Some (columns ! i))"
    by simp
qed

text \<open>
  C9.  The specification requires that, when the two arrays have the same length, the
  selector of every \<open>fields[i]\<close> is assigned \<open>columns[i]\<close> in the returned mapping.  The
  code does otherwise for a field whose selector is the string \<open>__proto__\<close>: the two
  arrays have one element each, nothing is thrown, and the returned mapping has no
  entry at all; with a second field, the mapping has the entry of that field only.
\<close>

theorem generateMapping_drops_proto_selector:
  "length [\<lparr>selector = ''__proto__'', label = Some ''Name'', name = None\<rparr>] = length [''Name''] \<and>
   generateMapping [\<lparr>selector = ''__proto__'', label = Some ''Name'', name = None\<rparr>] [''Name'']
     = Inr Map.empty \<and>
   generateMapping [\<lparr>selector = ''#a'', label = None, name = None\<rparr>,
                    \<lparr>selector = ''__proto__'', label = None, name = None\<rparr>] [''x'', ''y'']
     = Inr [''#a'' \<mapsto> ''x'']"
  by (simp add: generateMapping_def setProperty_def)


lemma bestHeader_fold:
  "bestHeader headers usedHeaders fieldTokens =
     fold (bestStep headers usedHeaders fieldTokens) [0..<length headers] (- 1, 0)"
  unfolding bestHeader_def bestStep_def
  by (rule arg_cong [where f = "\<lambda>f. fold f [0..<length headers] (- 1, 0)"]) (auto simp: fun_eq_iff)

lemma bestStep_inv:
  "bestInv headers used ft st \<Longrightarrow> i < length headers \<Longrightarrow> bestInv headers used ft (bestStep headers used ft i st)"
  by (cases st) (auto simp: bestInv_def bestStep_def Let_def)

lemma bestFold_inv:
  "bestInv headers used ft st \<Longrightarrow> \<forall>i\<in>set is. i < length headers \<Longrightarrow>
   bestInv headers used ft (fold (bestStep headers used ft) is st)"
  by (induction "is" arbitrary: st) (auto simp: bestStep_inv)

lemma bestHeader_inv: "bestInv headers used ft (bestHeader headers used ft)"
  unfolding bestHeader_fold
  by (rule bestFold_inv) (auto simp: bestInv_def)

lemma autoInvI:
  "\<forall>s h. m s = Some h \<longrightarrow> h \<in> used \<Longrightarrow>
   \<forall>s1 s2 h. m s1 = Some h \<and> m s2 = Some h \<longrightarrow> s1 = s2 \<Longrightarrow>
   \<forall>s h. m s = Some h \<longrightarrow> h \<in> set headers \<and>
        (\<exists>f\<in>F. selector f = s \<and> fieldText f \<noteq> [] \<and>
           2 / 10 \<le> jaccard (set (tokenize (fieldText f))) (set (tokenize h))) \<Longrightarrow>
   autoInv F headers (m, used)"
  by (simp add: autoInv_def)

lemma autoMapStep_inv:
  assumes inv: "autoInv F headers st" and f: "f \<in> F"
  shows "autoInv F headers (autoMapStep headers f st)"
proof (cases st)
  case (Pair m used)
  obtain bi bs where b: "bestHeader headers used (set (tokenize (fieldText f))) = (bi, bs)"
    by (cases "bestHeader headers used (set (tokenize (fieldText f)))")
  have bInv: "bestInv headers used (set (tokenize (fieldText f))) (bi, bs)"
    using bestHeader_inv [of headers used "set (tokenize (fieldText f))"] b by simp
  from inv Pair have i1: "\<And>s h. m s = Some h \<Longrightarrow> h \<in> used"
    and i2: "\<And>s1 s2 h. m s1 = Some h \<Longrightarrow> m s2 = Some h \<Longrightarrow> s1 = s2"
    and i3: "\<And>s h. m s = Some h \<Longrightarrow> h \<in> set headers \<and>
        (\<exists>f\<in>F. selector f = s \<and> fieldText f \<noteq> [] \<and>
           2 / 10 \<le> jaccard (set (tokenize (fieldText f))) (set (tokenize h)))"
    unfolding autoInv_def by auto
  show ?thesis
  proof (cases "fieldText f \<noteq> [] \<and> bi \<noteq> - 1 \<and> 2 / 10 \<le> bs")
    case False
    then have "autoMapStep headers f st = st"
      using Pair b by (auto simp: autoMapStep_def)
    with inv show ?thesis by simp
  next
    case True
    let ?h = "headers ! nat bi"
    from True bInv have hl: "nat bi < length headers" and hu: "?h \<notin> used"
      and hs: "bs = jaccard (set (tokenize (fieldText f))) (set (tokenize ?h))"
      by (auto simp: bestInv_def)
    let ?m' = "setProperty m (selector f) ?h"
    have st': "autoMapStep headers f st = (?m', insert ?h used)"
      using True Pair b by (simp add: autoMapStep_def)
    have sp: "\<And>s h. ?m' s = Some h \<Longrightarrow> (s = selector f \<and> h = ?h) \<or> m s = Some h"
      using setProperty_Some [of m "selector f" ?h] by blast
    have a1: "\<forall>s h. ?m' s = Some h \<longrightarrow> h \<in> insert ?h used"
      using sp i1 by blast
    have a2: "\<forall>s1 s2 h. ?m' s1 = Some h \<and> ?m' s2 = Some h \<longrightarrow> s1 = s2"
    proof (intro allI impI)
      fix s1 s2 h assume a: "?m' s1 = Some h \<and> ?m' s2 = Some h"
      from a sp [of s1 h] have c1: "(s1 = selector f \<and> h = ?h) \<or> m s1 = Some h" by blast
      from a sp [of s2 h] have c2: "(s2 = selector f \<and> h = ?h) \<or> m s2 = Some h" by blast
      from c1 c2 i1 i2 hu show "s1 = s2" by blast
    qed
    have a3: "\<forall>s h. ?m' s = Some h \<longrightarrow> h \<in> set headers \<and>
        (\<exists>g\<in>F. selector g = s \<and> fieldText g \<noteq> [] \<and>
           2 / 10 \<le> jaccard (set (tokenize (fieldText g))) (set (tokenize h)))"
    proof (intro allI impI)
      fix s h assume a: "?m' s = Some h"
      show "h \<in> set headers \<and>
        (\<exists>g\<in>F. selector g = s \<and> fieldText g \<noteq> [] \<and>
           2 / 10 \<le> jaccard (set (tokenize (fieldText g))) (set (tokenize h)))"
      proof (cases "s = selector f \<and> h = ?h")
        case True
        with \<open>fieldText f \<noteq> [] \<and> bi \<noteq> - 1 \<and> 2 / 10 \<le> bs\<close> hl hs f show ?thesis
          by auto
      next
        case False
        with a sp [of s h] have "m s = Some h" by blast
        then show ?thesis by (rule i3)
      qed
    qed
    show ?thesis unfolding st' by (rule autoInvI) (fact a1 a2 a3)+
  qed
qed

lemma autoMap_fold_inv:
  "autoInv F headers st \<Longrightarrow> set xs \<subseteq> F \<Longrightarrow> autoInv F headers (fold (autoMapStep headers) xs st)"
  by (induction xs arbitrary: st) (auto simp: autoMapStep_inv)

text \<open>
  C10.  The mapping returned by \<open>autoMap\<close> is injective on headers: no header is the
  value of two selectors.  Every assigned header is one of the given headers, and some
  field with that selector has a non-empty label-or-name text whose token set has a
  Jaccard similarity of at least 0.2 with the header's token set.
\<close>

theorem autoMap_injective_threshold:
  "(\<forall>s1 s2 h. autoMap fs headers s1 = Some h \<and> autoMap fs headers s2 = Some h \<longrightarrow> s1 = s2) \<and>
   (\<forall>s h. autoMap fs headers s = Some h \<longrightarrow>
      h \<in> set headers \<and>
      (\<exists>f\<in>set fs. selector f = s \<and> fieldText f \<noteq> [] \<and>
         2 / 10 \<le> jaccard (set (tokenize (fieldText f))) (set (tokenize h))))"
proof -
  have "autoInv (set fs) headers (Map.empty, {})"
    by (simp add: autoInv_def)
  then have "autoInv (set fs) headers (fold (autoMapStep headers) fs (Map.empty, {}))"
    by (rule autoMap_fold_inv) simp
  then show ?thesis
    unfolding autoMap_def autoInv_def by (auto simp: split_beta)
qed

theorem autoMap_injective_threshold_witness:
  "autoMap [\<lparr>selector = ''#a'', label = Some ''E-mail address'', name = None\<rparr>,
              \<lparr>selector = ''#b'', label = None, name = Some ''email''\<rparr>]
             [''Phone'', ''Email Address'', ''email''] ''#b'' = Some ''email'' \<and>
   ''email'' \<in> set [''Phone'', ''Email Address'', ''email''] \<and>
   (\<exists>f\<in>set [\<lparr>selector = ''#a'', label = Some ''E-mail address'', name = None\<rparr>,
              \<lparr>selector = ''#b'', label = None, name = Some ''email''\<rparr>].
       selector f = ''#b'' \<and> fieldText f \<noteq> [] \<and>
       2 / 10 \<le> jaccard (set (tokenize (fieldText f))) (set (tokenize ''email'')))"
proof -
  have e: "autoMap [\<lparr>selector = ''#a'', label = Some ''E-mail address'', name = None\<rparr>,
              \<lparr>selector = ''#b'', label = None, name = Some ''email''\<rparr>]
             [''Phone'', ''Email Address'', ''email''] ''#b'' = Some ''email''"
    by code_simp
  from autoMap_injective_threshold [of
      "[\<lparr>selector = ''#a'', label = Some ''E-mail address'', name = None\<rparr>,
        \<lparr>selector = ''#b'', label = None, name = Some ''email''\<rparr>]"
      "[''Phone'', ''Email Address'', ''email'']"] e
  show ?thesis by blast
qed

section \<open>Properties of the mutation observer\<close>

lemma run_append: "run (es @ fs) s = run fs (run es s)"
  by (simp add: run_def)

lemma onMutation_idle:
  "timers s = [] \<Longrightarrow> armed (onMutation s) \<and> scans (onMutation s) = scans s"
  by (cases "debounceTimer s") (simp_all add: onMutation_def armed_def clearTimeout_def)

lemma onMutation_pending:
  "debounceTimer s = Some t \<Longrightarrow> timers s = [(t, d)] \<Longrightarrow>
   armed (onMutation s) \<and> scans (onMutation s) = scans s"
  by (simp add: onMutation_def armed_def clearTimeout_def)

lemma elapse_early:
  "armed s \<Longrightarrow> g < 300 \<Longrightarrow>
   (\<exists>t. debounceTimer (elapse g s) = Some t \<and> timers (elapse g s) = [(t, 300 - g)]) \<and>
   scans (elapse g s) = scans s"
  by (auto simp: armed_def elapse_def)

lemma elapse_due:
  "armed s \<Longrightarrow> 300 \<le> quiet \<Longrightarrow>
   timers (elapse quiet s) = [] \<and> scans (elapse quiet s) = Suc (scans s)"
  by (auto simp: armed_def elapse_def)

lemma gap_then_mutation:
  assumes "armed s" "g < 300"
  shows "armed (run [Elapse g, Mutation] s) \<and> scans (run [Elapse g, Mutation] s) = scans s"
proof -
  from elapse_early [OF assms] obtain t where
    t: "debounceTimer (elapse g s) = Some t" "timers (elapse g s) = [(t, 300 - g)]"
    and sc: "scans (elapse g s) = scans s" by blast
  from onMutation_pending [OF t] sc show ?thesis by (simp add: run_def)
qed

lemma gaps_keep_armed:
  "armed s \<Longrightarrow> \<forall>g\<in>set gaps. g < 300 \<Longrightarrow>
   armed (run (concat (map (\<lambda>g. [Elapse g, Mutation]) gaps)) s) \<and>
   scans (run (concat (map (\<lambda>g. [Elapse g, Mutation]) gaps)) s) = scans s"
proof (induction gaps arbitrary: s)
  case Nil
  then show ?case by (simp add: run_def)
next
  case (Cons g gaps)
  from Cons.prems have g: "g < 300" and rest: "\<forall>g\<in>set gaps. g < 300" by simp_all
  from gap_then_mutation [OF Cons.prems(1) g]
  have a: "armed (run [Elapse g, Mutation] s)"
    and sc: "scans (run [Elapse g, Mutation] s) = scans s" by simp_all
  from Cons.IH [OF a rest] sc
  have "armed (run (concat (map (\<lambda>g. [Elapse g, Mutation]) gaps)) (run [Elapse g, Mutation] s)) \<and>
        scans (run (concat (map (\<lambda>g. [Elapse g, Mutation]) gaps)) (run [Elapse g, Mutation] s)) = scans s"
    by simp
  moreover have "run (concat (map (\<lambda>g. [Elapse g, Mutation]) (g # gaps))) s =
      run (concat (map (\<lambda>g. [Elapse g, Mutation]) gaps)) (run [Elapse g, Mutation] s)"
    by (simp add: run_def)
  ultimately show ?case by simp
qed

lemma burst_arms:
  assumes "timers s = []" "\<forall>g\<in>set gaps. g < 300"
  shows "armed (run (burst gaps) s) \<and> scans (run (burst gaps) s) = scans s"
proof -
  have split: "run (burst gaps) s = run (concat (map (\<lambda>g. [Elapse g, Mutation]) gaps)) (onMutation s)"
    by (simp add: burst_def run_def)
  from onMutation_idle [OF assms(1)]
  have a: "armed (onMutation s)" and sc: "scans (onMutation s) = scans s" by simp_all
  from gaps_keep_armed [OF a assms(2)] sc show ?thesis by (simp add: split)
qed

lemma burst_then_quiet:
  assumes "timers s = []" "\<forall>g\<in>set gaps. g < 300" "300 \<le> quiet"
  shows "timers (run (burst gaps @ [Elapse quiet]) s) = [] \<and>
         scans (run (burst gaps @ [Elapse quiet]) s) = Suc (scans s)"
proof -
  from burst_arms [OF assms(1,2)]
  have a: "armed (run (burst gaps) s)" and sc: "scans (run (burst gaps) s) = scans s" by simp_all
  have "run (burst gaps @ [Elapse quiet]) s = elapse quiet (run (burst gaps) s)"
    by (simp add: run_append) (simp add: run_def)
  with elapse_due [OF a assms(3)] sc show ?thesis by simp
qed

text \<open>
  C6.  Let no timer be pending (the observer is idle; this is also the state in which a
  scan has just run).  A burst of \<open>N \<ge> 1\<close> mutation callbacks whose successive gaps are
  each shorter than the 300 ms window triggers no scan while it lasts and exactly one
  scan once 300 ms or more have passed after its last callback, and then no timer is
  pending again.  A scan runs to completion inside the timer callback, so a mutation
  that falls into a scan reaches the observer as the first callback after it: then
  the mutations that follow the scan, again as a burst, trigger exactly one follow-up
  scan after their own quiet window, neither none nor two.
\<close>

theorem debounce_one_rescan:
  assumes idle: "timers s = []"
    and gaps: "\<forall>g\<in>set gaps. g < 300" and quiet: "300 \<le> quiet"
    and gaps': "\<forall>g\<in>set gaps'. g < 300" and quiet': "300 \<le> quiet'"
  shows "scans (run (burst gaps) s) = scans s \<and>
         scans (run (burst gaps @ [Elapse quiet]) s) = scans s + 1 \<and>
         timers (run (burst gaps @ [Elapse quiet]) s) = [] \<and>
         scans (run (burst gaps @ [Elapse quiet] @ burst gaps') s) = scans s + 1 \<and>
         scans (run (burst gaps @ [Elapse quiet] @ burst gaps' @ [Elapse quiet']) s) = scans s + 2"
proof -
  let ?s1 = "run (burst gaps @ [Elapse quiet]) s"
  from burst_arms [OF idle gaps] have a: "scans (run (burst gaps) s) = scans s" by simp
  from burst_then_quiet [OF idle gaps quiet]
  have b: "timers ?s1 = []" and c: "scans ?s1 = Suc (scans s)" by simp_all
  from burst_arms [OF b gaps'] c
  have d: "scans (run (burst gaps') ?s1) = Suc (scans s)" by simp
  from burst_then_quiet [OF b gaps' quiet'] c
  have e: "scans (run (burst gaps' @ [Elapse quiet']) ?s1) = Suc (Suc (scans s))" by simp
  have d': "run (burst gaps @ [Elapse quiet] @ burst gaps') s = run (burst gaps') ?s1"
    by (simp add: run_def)
  have e': "run (burst gaps @ [Elapse quiet] @ burst gaps' @ [Elapse quiet']) s
            = run (burst gaps' @ [Elapse quiet']) ?s1"
    by (simp add: run_def)
  show ?thesis unfolding d' e' using a b c d e by simp
qed

text \<open>
  Three mutation callbacks 10 ms and 299 ms apart, 300 ms of quiet, one more callback as
  the scan ends, 300 ms of quiet: one scan, then a second one.
\<close>

theorem debounce_one_rescan_witness:
  "timers observeMutations = [] \<and> (10::nat) < 300 \<and> (299::nat) < 300 \<and> (300::nat) \<le> 300 \<and>
   scans (run (burst [10, 299]) observeMutations) = 0 \<and>
   scans (run (burst [10, 299] @ [Elapse 300]) observeMutations) = 1 \<and>
   scans (run (burst [10, 299] @ [Elapse 300] @ burst []) observeMutations) = 1 \<and>
   scans (run (burst [10, 299] @ [Elapse 300] @ burst [] @ [Elapse 300]) observeMutations) = 2"
proof -
  have idle: "timers observeMutations = []" by (simp add: observeMutations_def)
  have z: "scans observeMutations = 0" by (simp add: observeMutations_def)
  have g: "\<forall>g\<in>set [10, 299 :: nat]. g < 300" by simp
  have g': "\<forall>g\<in>set ([] :: nat list). g < 300" by simp
  from debounce_one_rescan [OF idle g order_refl g' order_refl] idle z
  show ?thesis by simp
qed

section \<open>Properties of the deep query\<close>

lemma not_isSpace_gt: "\<not> isSpace CHR ''>''"
  by (simp add: isSpace_def)

lemma onlyDelims_dropWhile: "onlyDelims s \<Longrightarrow> onlyDelims (dropWhile isSpace s)"
  by (induction s) (auto split: if_splits)

lemma onlyDelims_drop3:
  "onlyDelims s \<Longrightarrow> take 3 s = ''>>>'' \<Longrightarrow> onlyDelims (drop 3 s)"
proof (cases s)
  case Nil
  then show "take 3 s = ''>>>'' \<Longrightarrow> onlyDelims (drop 3 s)" by simp
next
  case (Cons c cs)
  assume od: "onlyDelims s" and t: "take 3 s = ''>>>''"
  from t Cons have c: "c = CHR ''>''" by (simp add: numeral_3_eq_3)
  with od Cons not_isSpace_gt have "onlyDelims (drop 2 cs)" by simp
  moreover have "drop 3 s = drop 2 cs" using Cons by (simp add: numeral_3_eq_3 numeral_2_eq_2)
  ultimately show "onlyDelims (drop 3 s)" by simp
qed

lemma onlyDelims_head:
  assumes "onlyDelims (c # cs)" "take 3 (dropWhile isSpace (c # cs)) \<noteq> ''>>>''"
  shows "isSpace c \<and> onlyDelims cs"
proof (cases "isSpace c")
  case True
  with assms(1) show ?thesis by simp
next
  case False
  with assms(1) have "c = CHR ''>''" "take 2 cs = ''>>''" by simp_all
  then have "take 3 (c # cs) = ''>>>''" by (simp add: numeral_3_eq_3 numeral_2_eq_2)
  with False assms(2) show ?thesis by simp
qed

lemma splitDeep_blank:
  "onlyDelims rest \<Longrightarrow> list_all isSpace cur \<Longrightarrow>
   list_all (list_all isSpace) (splitDeep cur rest)"
proof (induction cur rest rule: splitDeep.induct)
  case (1 cur rest)
  show ?case
  proof (cases "rest = []")
    case True
    then have "splitDeep cur rest = [cur]" by (subst splitDeep.simps) simp
    with "1.prems" show ?thesis by simp
  next
    case ne: False
    show ?thesis
    proof (cases "take 3 (dropWhile isSpace rest) = ''>>>''")
      case True
      let ?rest' = "dropWhile isSpace (drop 3 (dropWhile isSpace rest))"
      have "onlyDelims (dropWhile isSpace rest)"
        using "1.prems"(1) by (rule onlyDelims_dropWhile)
      then have "onlyDelims (drop 3 (dropWhile isSpace rest))"
        using True by (rule onlyDelims_drop3)
      then have od: "onlyDelims ?rest'" by (rule onlyDelims_dropWhile)
      have blank: "list_all isSpace []" by simp
      have tl: "list_all (list_all isSpace) (splitDeep [] ?rest')"
        using ne True od blank by (rule "1.IH"(1))
      have eq: "splitDeep cur rest = cur # splitDeep [] ?rest'"
        using ne True by (subst splitDeep.simps) simp
      show ?thesis unfolding eq using "1.prems"(2) tl by simp
    next
      case False
      from ne obtain c cs where rest: "rest = c # cs" by (cases rest) auto
      from "1.prems"(1) False have "isSpace c \<and> onlyDelims cs"
        unfolding rest by (rule onlyDelims_head)
      then have c: "isSpace c" and cs: "onlyDelims cs" by simp_all
      have od: "onlyDelims (tl rest)" using cs rest by simp
      have blank: "list_all isSpace (cur @ [hd rest])"
        using "1.prems"(2) c rest by simp
      have tl: "list_all (list_all isSpace) (splitDeep (cur @ [hd rest]) (tl rest))"
        using ne False od blank by (rule "1.IH"(2))
      have eq: "splitDeep cur rest = splitDeep (cur @ [hd rest]) (tl rest)"
        using ne False by (subst splitDeep.simps) simp
      show ?thesis unfolding eq using tl by simp
    qed
  qed
qed

lemma trim_blank: "list_all isSpace s \<Longrightarrow> trim s = []"
  by (auto simp: trim_def list_all_iff dest: set_dropWhileD)

lemma deepParts_onlyDelims: "onlyDelims s \<Longrightarrow> deepParts s = []"
proof -
  assume "onlyDelims s"
  then have "list_all (list_all isSpace) (splitDeep [] s)"
    by (rule splitDeep_blank) simp
  then have "\<forall>piece\<in>set (splitDeep [] s). trim piece = []"
    by (simp add: trim_blank list_all_iff)
  then show ?thesis
    by (simp add: deepParts_def filter_empty_conv)
qed

lemma matchesIn_matched:
  "\<exists>ms. qsa (snd c) f = Inr ms \<Longrightarrow> matchesIn qsa f c = Inr (matched qsa f c)"
  by (cases c) (auto simp: matched_def matchesIn_def andThen_def)

lemma collect_matched:
  "\<forall>r. \<exists>ms. qsa r f = Inr ms \<Longrightarrow>
   collect (matchesIn qsa f) cs = Inr (concat (map (matched qsa f) cs))"
proof (induction cs)
  case Nil
  show ?case by simp
next
  case (Cons c cs)
  from Cons.prems have "matchesIn qsa f c = Inr (matched qsa f c)"
    by (intro matchesIn_matched) simp
  with Cons show ?case by (simp add: andThen_def)
qed

lemma candidates_concat:
  "concat (map (candidates qsa f) cs) =
   filter (\<lambda>m. isElement (snd m)) (concat (map (matched qsa f) cs))"
  by (induction cs) (simp_all add: candidates_def)

text \<open>A match lies in the window of its context.\<close>

lemma inScriptWindow_children: "inScriptWindow (h @ map Child p) = inScriptWindow h"
  by (auto simp: inScriptWindow_def)

lemma matched_window:
  "m \<in> set (matched qsa f c) \<Longrightarrow> inScriptWindow (fst m) = inScriptWindow (fst c)"
  by (cases c)
     (auto simp: matched_def matchesIn_def andThen_def map_filter_def inScriptWindow_children
        split: sum.splits)

lemma matched_filter_window:
  "filter (\<lambda>m. inScriptWindow (fst m)) (matched qsa f c) =
   (if inScriptWindow (fst c) then matched qsa f c else [])"
  using matched_window [of _ qsa f c] by (auto simp: filter_empty_conv filter_id_conv)

lemma matched_concat_window:
  "filter (\<lambda>m. inScriptWindow (fst m)) (concat (map (matched qsa f) cs)) =
   concat (map (matched qsa f) (filter (\<lambda>c. inScriptWindow (fst c)) cs))"
  by (induction cs) (simp_all add: matched_filter_window)

text \<open>What \<open>nextRoot\<close> enters is a boundary, and in the window of the script it enters every one.\<close>

lemma boundary_isElement: "isBoundary n \<Longrightarrow> isElement n"
  by (cases n) (auto simp: isBoundary_def isElement_def contentDocument_def contentWindow_def
      shadowRoot_def)

lemma nextRoot_Some: "nextRoot m = Some c \<Longrightarrow> isBoundary (snd m) \<and> c = enter m"
  by (cases m)
     (auto simp: nextRoot_def isBoundary_def enter_def contentDocument_def contentWindow_def
        hasTag_def isSameOriginIframe_def shadowRoot_def
        split: node.splits frame.splits option.splits if_splits)

lemma nextRoot_enter:
  "inScriptWindow (fst m) \<Longrightarrow>
   nextRoot m = (if isBoundary (snd m) then Some (enter m) else None)"
  by (cases m)
     (auto simp: nextRoot_def isBoundary_def enter_def contentDocument_def contentWindow_def
        hasTag_def isSameOriginIframe_def shadowRoot_def
        split: node.splits frame.splits option.splits if_splits)

lemma enter_window:
  "isBoundary (snd m) \<Longrightarrow>
   inScriptWindow (fst (enter m)) = (inScriptWindow (fst m) \<and> contentDocument (snd m) = None)"
  by (cases m)
     (auto simp: isBoundary_def enter_def inScriptWindow_def split: option.splits)

lemma nextRoot_window:
  "nextRoot m = Some c \<Longrightarrow>
   inScriptWindow (fst c) = (inScriptWindow (fst m) \<and> contentDocument (snd m) = None)"
  using nextRoot_Some [of m c] enter_window [of m] by simp

lemma map_filter_nextRoot_window:
  "filter (\<lambda>c. inScriptWindow (fst c)) (List.map_filter nextRoot ms) =
   map enter (filter (\<lambda>m. isBoundary (snd m) \<and> contentDocument (snd m) = None)
                (filter (\<lambda>m. inScriptWindow (fst m)) ms))"
proof (induction ms)
  case Nil
  show ?case by (simp add: map_filter_simps)
next
  case (Cons m ms)
  show ?case
  proof (cases "nextRoot m")
    case None
    then have "\<not> (inScriptWindow (fst m) \<and> isBoundary (snd m))"
      using nextRoot_enter [of m] by auto
    with None Cons show ?thesis by (auto simp: map_filter_simps)
  next
    case (Some c)
    from nextRoot_Some [OF Some] have b: "isBoundary (snd m)" and c: "c = enter m" by simp_all
    from nextRoot_window [OF Some] Some b c Cons show ?thesis
      by (auto simp: map_filter_simps)
  qed
qed

lemma enter_boundaries_window:
  "filter (\<lambda>c. inScriptWindow (fst c)) (map enter (filter (\<lambda>m. isBoundary (snd m)) xs)) =
   map enter (filter (\<lambda>m. isBoundary (snd m) \<and> contentDocument (snd m) = None)
                (filter (\<lambda>m. inScriptWindow (fst m)) xs))"
  by (induction xs) (auto simp: enter_window)

lemma boundaries_among_elements:
  "filter (\<lambda>m. isBoundary (snd m) \<and> contentDocument (snd m) = None)
     (filter (\<lambda>m. inScriptWindow (fst m)) (filter (\<lambda>m. isElement (snd m)) xs)) =
   filter (\<lambda>m. isBoundary (snd m) \<and> contentDocument (snd m) = None)
     (filter (\<lambda>m. inScriptWindow (fst m)) xs)"
  by (induction xs) (auto dest: boundary_isElement)

lemma map_filter_mem: "c \<in> set (List.map_filter g xs) \<Longrightarrow> \<exists>m\<in>set xs. g m = Some c"
  by (auto simp: map_filter_def)

lemma deepEval_no_context: "deepEval qsa [] fs = []"
  by (induction qsa "[] :: ctx list" fs rule: deepEval.induct) simp_all

lemma queryLoop_no_context: "queryLoop qsa fs [] = Inr []"
  by (cases fs) (simp_all add: andThen_def map_filter_simps)

text \<open>
  The loop against the evaluation of the specification, for two lists of contexts that
  agree in the window of the script: the loop returns what that evaluation finds in
  this window.
\<close>

lemma queryLoop_deepEval:
  "fs \<noteq> [] \<Longrightarrow> \<forall>r. \<forall>f\<in>set fs. \<exists>ms. qsa r f = Inr ms \<Longrightarrow>
   filter (\<lambda>c. inScriptWindow (fst c)) cs' = filter (\<lambda>c. inScriptWindow (fst c)) cs \<Longrightarrow>
   queryLoop qsa fs cs' = Inr (filter inScriptWindow (map fst (deepEval qsa cs fs)))"
proof (induction qsa cs fs arbitrary: cs' rule: deepEval.induct)
  case (1 qsa cs)
  then show ?case by simp
next
  case (2 qsa cs f)
  let ?X' = "concat (map (matched qsa f) cs')" and ?X = "concat (map (matched qsa f) cs)"
  from "2.prems" have c: "collect (matchesIn qsa f) cs' = Inr ?X'"
    by (intro collect_matched) simp
  have w: "filter (\<lambda>m. inScriptWindow (fst m)) ?X' = filter (\<lambda>m. inScriptWindow (fst m)) ?X"
    using "2.prems"(3) by (simp add: matched_concat_window)
  have "filter instanceofElement ?X' =
        filter (\<lambda>m. inScriptWindow (fst m) \<and> isElement (snd m)) ?X'"
    by (rule filter_cong) (auto simp: instanceofElement_def isElement_def split: node.splits)
  also have "\<dots> = filter (\<lambda>m. isElement (snd m)) (filter (\<lambda>m. inScriptWindow (fst m)) ?X')"
    by simp
  also have "\<dots> = filter (\<lambda>m. isElement (snd m)) (filter (\<lambda>m. inScriptWindow (fst m)) ?X)"
    by (simp only: w)
  also have "\<dots> = filter (\<lambda>m. inScriptWindow (fst m)) (deepEval qsa cs [f])"
    by (simp add: candidates_concat conj_commute)
  finally have r: "map fst (filter instanceofElement ?X') =
      filter inScriptWindow (map fst (deepEval qsa cs [f]))"
    by (simp add: filter_map comp_def)
  have "queryLoop qsa [f] cs' = Inr (map fst (filter instanceofElement ?X'))"
    using c by (simp add: andThen_def)
  with r show ?case by simp
next
  case (3 qsa cs f g fs)
  let ?X' = "concat (map (matched qsa f) cs')" and ?X = "concat (map (matched qsa f) cs)"
  let ?next' = "List.map_filter nextRoot ?X'"
  let ?next = "map enter (filter (\<lambda>m. isBoundary (snd m)) (concat (map (candidates qsa f) cs)))"
  from "3.prems" have c: "collect (matchesIn qsa f) cs' = Inr ?X'"
    by (intro collect_matched) simp
  have w: "filter (\<lambda>m. inScriptWindow (fst m)) ?X' = filter (\<lambda>m. inScriptWindow (fst m)) ?X"
    using "3.prems"(3) by (simp add: matched_concat_window)
  have n: "filter (\<lambda>c. inScriptWindow (fst c)) ?next' = filter (\<lambda>c. inScriptWindow (fst c)) ?next"
    unfolding map_filter_nextRoot_window enter_boundaries_window candidates_concat
      boundaries_among_elements w ..
  from "3.prems" have "queryLoop qsa (g # fs) ?next' =
      Inr (filter inScriptWindow (map fst (deepEval qsa ?next (g # fs))))"
    by (intro "3.IH" n) simp_all
  moreover have "queryLoop qsa (f # g # fs) cs' = queryLoop qsa (g # fs) ?next'"
  proof (cases "?next' = []")
    case True
    with c have "queryLoop qsa (f # g # fs) cs' = Inr []" by (simp add: andThen_def Let_def)
    with True show ?thesis by (simp only: queryLoop_no_context)
  next
    case False
    with c show ?thesis by (simp add: andThen_def Let_def)
  qed
  ultimately show ?case by simp
qed

lemma queryDeepAll_deepEval:
  assumes "\<forall>r. \<forall>f\<in>set (deepParts s). \<exists>ms. qsa r f = Inr ms"
  shows "queryDeepAll qsa document s =
         Inr (filter inScriptWindow (map fst (deepEval qsa [([], document)] (deepParts s))))"
proof (cases "deepParts s = []")
  case True
  then show ?thesis by (simp add: queryDeepAll_def)
next
  case False
  with assms queryLoop_deepEval [of "deepParts s" qsa "[([], document)]" "[([], document)]"]
  show ?thesis by (simp add: queryDeepAll_def)
qed

text \<open>
  The loop stops with the empty list at an intermediate part none of whose candidates,
  in the contexts of the specification's evaluation, is a boundary: the contexts of the
  loop are among these.
\<close>

lemma queryLoop_dead_end:
  "pre \<noteq> [] \<Longrightarrow> post \<noteq> [] \<Longrightarrow> \<forall>r. \<forall>f\<in>set pre. \<exists>ms. qsa r f = Inr ms \<Longrightarrow>
   set cs' \<subseteq> set cs \<Longrightarrow>
   list_all (\<lambda>m. \<not> isBoundary (snd m)) (deepEval qsa cs pre) \<Longrightarrow>
   queryLoop qsa (pre @ post) cs' = Inr []"
proof (induction qsa cs pre arbitrary: cs' rule: deepEval.induct)
  case (1 qsa cs)
  then show ?case by simp
next
  case (2 qsa cs f)
  let ?X' = "concat (map (matched qsa f) cs')"
  from "2.prems" have c: "collect (matchesIn qsa f) cs' = Inr ?X'"
    by (intro collect_matched) simp
  have "nextRoot m = None" if "m \<in> set ?X'" for m
  proof (cases "nextRoot m")
    case None
    then show ?thesis .
  next
    case (Some c)
    from nextRoot_Some [OF Some] have b: "isBoundary (snd m)" by simp
    then have "isElement (snd m)" by (rule boundary_isElement)
    with that "2.prems"(4) have "m \<in> set (deepEval qsa cs [f])"
      by (auto simp: candidates_concat)
    with "2.prems"(5) b show ?thesis by (auto simp: list_all_iff)
  qed
  then have "List.map_filter nextRoot ?X' = []"
    by (auto simp: map_filter_def filter_empty_conv)
  with c "2.prems"(2) show ?case
    by (cases post) (simp_all add: andThen_def Let_def)
next
  case (3 qsa cs f g fs)
  let ?X' = "concat (map (matched qsa f) cs')"
  let ?next' = "List.map_filter nextRoot ?X'"
  let ?next = "map enter (filter (\<lambda>m. isBoundary (snd m)) (concat (map (candidates qsa f) cs)))"
  from "3.prems" have c: "collect (matchesIn qsa f) cs' = Inr ?X'"
    by (intro collect_matched) simp
  have sub: "set ?next' \<subseteq> set ?next"
  proof
    fix c assume "c \<in> set ?next'"
    then obtain m where m: "m \<in> set ?X'" and nr: "nextRoot m = Some c"
      using map_filter_mem by fastforce
    from nextRoot_Some [OF nr] have b: "isBoundary (snd m)" and e: "c = enter m" by simp_all
    from b have "isElement (snd m)" by (rule boundary_isElement)
    with m "3.prems"(4) have "m \<in> set (concat (map (candidates qsa f) cs))"
      by (auto simp: candidates_concat)
    with b e show "c \<in> set ?next" by auto
  qed
  from "3.prems" have "queryLoop qsa ((g # fs) @ post) ?next' = Inr []"
    by (intro "3.IH" sub) simp_all
  moreover have "queryLoop qsa ((f # g # fs) @ post) cs' = queryLoop qsa ((g # fs) @ post) ?next'"
  proof (cases "?next' = []")
    case True
    with c have "queryLoop qsa ((f # g # fs) @ post) cs' = Inr []"
      by (simp add: andThen_def Let_def)
    with True show ?thesis by (simp only: queryLoop_no_context)
  next
    case False
    with c show ?thesis by (simp add: andThen_def Let_def)
  qed
  ultimately show ?case by simp
qed

lemma queryDeepAll_dead_end:
  assumes k: "Suc k < length (deepParts s)"
    and acc: "\<forall>r. \<forall>f\<in>set (take (Suc k) (deepParts s)). \<exists>ms. qsa r f = Inr ms"
    and dead: "list_all (\<lambda>m. \<not> isBoundary (snd m))
                 (deepEval qsa [([], document)] (take (Suc k) (deepParts s)))"
  shows "queryDeepAll qsa document s = Inr []"
proof -
  let ?pre = "take (Suc k) (deepParts s)" and ?post = "drop (Suc k) (deepParts s)"
  from k have pre: "?pre \<noteq> []" and post: "?post \<noteq> []" and ne: "deepParts s \<noteq> []" by auto
  have "queryLoop qsa (?pre @ ?post) [([], document)] = Inr []"
    using pre post acc _ dead by (rule queryLoop_dead_end) simp
  then show ?thesis using ne by (simp add: queryDeepAll_def)
qed

lemma queryDeepAll_throws:
  assumes "deepParts s = f # fs" "qsa document f = Inl x"
  shows "queryDeepAll qsa document s = Inl x"
  using assms by (simp add: queryDeepAll_def matchesIn_def andThen_def)

text \<open>
  C5.  When the selector engine accepts every fragment of a deep-query string, the
  evaluation does not throw, and outside the frame documents the matches it returns are
  those of the evaluation that the specification describes, in which at each
  intermediate hop the candidates that are neither an accessible same-origin iframe nor
  a shadow host are dropped.  When the engine accepts the fragments up to an
  intermediate hop at which no candidate is a boundary, the query returns the empty
  list, whatever the later fragments are.  When the engine throws on the first fragment
  in the document, so does the query.
\<close>

theorem queryDeepAll_boundaries:
  "((\<forall>r. \<forall>f\<in>set (deepParts s). \<exists>ms. qsa r f = Inr ms) \<longrightarrow>
      (\<exists>hs. queryDeepAll qsa document s = Inr hs \<and>
            filter inScriptWindow hs =
              filter inScriptWindow (map fst (deepEval qsa [([], document)] (deepParts s))))) \<and>
   (\<forall>k. Suc k < length (deepParts s) \<and>
        (\<forall>r. \<forall>f\<in>set (take (Suc k) (deepParts s)). \<exists>ms. qsa r f = Inr ms) \<and>
        list_all (\<lambda>m. \<not> isBoundary (snd m))
          (deepEval qsa [([], document)] (take (Suc k) (deepParts s))) \<longrightarrow>
        queryDeepAll qsa document s = Inr []) \<and>
   (\<forall>f fs x. deepParts s = f # fs \<and> qsa document f = Inl x \<longrightarrow>
      queryDeepAll qsa document s = Inl x)"
proof (intro conjI impI allI)
  assume "\<forall>r. \<forall>f\<in>set (deepParts s). \<exists>ms. qsa r f = Inr ms"
  then have "queryDeepAll qsa document s =
      Inr (filter inScriptWindow (map fst (deepEval qsa [([], document)] (deepParts s))))"
    by (rule queryDeepAll_deepEval)
  then show "\<exists>hs. queryDeepAll qsa document s = Inr hs \<and>
            filter inScriptWindow hs =
              filter inScriptWindow (map fst (deepEval qsa [([], document)] (deepParts s)))"
    by simp
next
  fix k
  assume "Suc k < length (deepParts s) \<and>
        (\<forall>r. \<forall>f\<in>set (take (Suc k) (deepParts s)). \<exists>ms. qsa r f = Inr ms) \<and>
        list_all (\<lambda>m. \<not> isBoundary (snd m))
          (deepEval qsa [([], document)] (take (Suc k) (deepParts s)))"
  then show "queryDeepAll qsa document s = Inr []"
    using queryDeepAll_dead_end [of k s qsa document] by blast
next
  fix f fs x assume "deepParts s = f # fs \<and> qsa document f = Inl x"
  then show "queryDeepAll qsa document s = Inl x"
    using queryDeepAll_throws [of s f fs qsa document x] by simp
qed

text \<open>
  A fragment that is no selector makes \<open>querySelectorAll\<close> throw, and the deep query with
  it, at the first hop and at the second.
\<close>

theorem queryDeepAll_invalid_fragment_counterexample:
  "queryDeepAll querySelectorAll widgetPage ''! >>> input'' = Inl SyntaxError \<and>
   queryDeepAll querySelectorAll widgetPage ''my-widget >>> !'' = Inl SyntaxError"
  by code_simp

text \<open>
  On the page with the custom element: \<open>my-widget >>> input\<close> finds the input in the
  shadow root, \<open>body >>> !\<close> is empty, the body being no boundary, and \<open>! >>> input\<close>
  throws.  On the page with the iframe, the evaluation of the specification finds the
  input of the frame document for \<open>iframe >>> input\<close>; no match lies outside the frame
  document, and the query returns none.
\<close>

theorem queryDeepAll_boundaries_witness:
  "deepParts ''my-widget >>> input'' = [''my-widget'', ''input''] \<and>
   queryDeepAll querySelectorAll widgetPage ''my-widget >>> input'' =
     Inr [[Child 0, Child 1, Child 0, ShadowStep, Child 0]] \<and>
   map fst (deepEval querySelectorAll [([], widgetPage)] [''my-widget'', ''input'']) =
     [[Child 0, Child 1, Child 0, ShadowStep, Child 0]] \<and>
   deepParts ''body >>> !'' = [''body'', ''!''] \<and>
   list_all (\<lambda>m. \<not> isBoundary (snd m)) (deepEval querySelectorAll [([], widgetPage)] [''body'']) \<and>
   queryDeepAll querySelectorAll widgetPage ''body >>> !'' = Inr [] \<and>
   deepParts ''! >>> input'' = [''!'', ''input''] \<and>
   querySelectorAll widgetPage ''!'' = Inl SyntaxError \<and>
   queryDeepAll querySelectorAll widgetPage ''! >>> input'' = Inl SyntaxError \<and>
   deepParts ''iframe >>> input'' = [''iframe'', ''input''] \<and>
   map fst (deepEval querySelectorAll [([], framePage)] [''iframe'', ''input'']) =
     [[Child 0, Child 1, Child 1, FrameStep, Child 0, Child 0, Child 0]] \<and>
   (\<exists>hs. queryDeepAll querySelectorAll framePage ''iframe >>> input'' = Inr hs \<and>
         filter inScriptWindow hs = []) \<and>
   queryDeepAll querySelectorAll framePage ''iframe >>> input'' = Inr []"
proof -
  have p1: "deepParts ''my-widget >>> input'' = [''my-widget'', ''input'']" by code_simp
  have a2: "parseSelector ''input'' = Some [[TagSel ''input'']]" by code_simp
  have e1: "map fst (deepEval querySelectorAll [([], widgetPage)] [''my-widget'', ''input'']) =
     [[Child 0, Child 1, Child 0, ShadowStep, Child 0]]" by code_simp
  have q1: "queryDeepAll querySelectorAll widgetPage ''my-widget >>> input'' =
     Inr [[Child 0, Child 1, Child 0, ShadowStep, Child 0]]" by code_simp
  have p2: "deepParts ''body >>> !'' = [''body'', ''!'']" by code_simp
  have a3: "parseSelector ''body'' = Some [[TagSel ''body'']]" by code_simp
  have acc2: "\<forall>r. \<forall>f\<in>set (take (Suc 0) (deepParts ''body >>> !'')). \<exists>ms. querySelectorAll r f = Inr ms"
    using a3 by (simp add: p2 querySelectorAll_def)
  have d2: "list_all (\<lambda>m. \<not> isBoundary (snd m)) (deepEval querySelectorAll [([], widgetPage)] [''body''])"
    by code_simp
  have k: "Suc 0 < length (deepParts ''body >>> !'')" by (simp add: p2)
  have p3: "deepParts ''! >>> input'' = [''!'', ''input'']" by code_simp
  have x3: "querySelectorAll widgetPage ''!'' = Inl SyntaxError" by code_simp
  have p4: "deepParts ''iframe >>> input'' = [''iframe'', ''input'']" by code_simp
  have a4: "parseSelector ''iframe'' = Some [[TagSel ''iframe'']]" by code_simp
  have acc4: "\<forall>r. \<forall>f\<in>set (deepParts ''iframe >>> input''). \<exists>ms. querySelectorAll r f = Inr ms"
    using a4 a2 by (simp add: p4 querySelectorAll_def)
  have e4: "map fst (deepEval querySelectorAll [([], framePage)] [''iframe'', ''input'']) =
     [[Child 0, Child 1, Child 1, FrameStep, Child 0, Child 0, Child 0]]" by code_simp
  have w4: "filter inScriptWindow [[Child 0, Child 1, Child 1, FrameStep, Child 0, Child 0, Child 0]] = []"
    by code_simp
  note inst2 = queryDeepAll_boundaries [of "''body >>> !''" querySelectorAll widgetPage]
  note inst3 = queryDeepAll_boundaries [of "''! >>> input''" querySelectorAll widgetPage]
  note inst4 = queryDeepAll_boundaries [of "''iframe >>> input''" querySelectorAll framePage]
  from inst2 have "Suc 0 < length (deepParts ''body >>> !'') \<and>
        (\<forall>r. \<forall>f\<in>set (take (Suc 0) (deepParts ''body >>> !'')). \<exists>ms. querySelectorAll r f = Inr ms) \<and>
        list_all (\<lambda>m. \<not> isBoundary (snd m))
          (deepEval querySelectorAll [([], widgetPage)] (take (Suc 0) (deepParts ''body >>> !''))) \<longrightarrow>
        queryDeepAll querySelectorAll widgetPage ''body >>> !'' = Inr []"
    by blast
  with k acc2 d2 have r2: "queryDeepAll querySelectorAll widgetPage ''body >>> !'' = Inr []"
    by (simp add: p2)
  from inst3 p3 x3 have r3: "queryDeepAll querySelectorAll widgetPage ''! >>> input'' = Inl SyntaxError"
    by blast
  from inst4 acc4 obtain hs4
    where q4: "queryDeepAll querySelectorAll framePage ''iframe >>> input'' = Inr hs4"
    and f4: "filter inScriptWindow hs4 =
      filter inScriptWindow (map fst (deepEval querySelectorAll [([], framePage)]
        (deepParts ''iframe >>> input'')))"
    by blast
  have "filter inScriptWindow hs4 = []" using f4 unfolding p4 e4 w4 .
  with q4 have r4: "\<exists>hs. queryDeepAll querySelectorAll framePage ''iframe >>> input'' = Inr hs \<and>
         filter inScriptWindow hs = []"
    by blast
  have c4: "queryDeepAll querySelectorAll framePage ''iframe >>> input'' = Inr []" by code_simp
  from p1 q1 e1 p2 d2 r2 p3 x3 r3 p4 e4 r4 c4 show ?thesis by blast
qed

text \<open>
  C8.  For every input that consists of the \<open>>>>\<close> delimiter and white space only,
  \<open>queryDeepAll\<close> returns the empty list.  It returns a list for every input whose
  fragments the selector engine accepts; and when the engine throws on the first
  fragment in the document, so does \<open>queryDeepAll\<close>.
\<close>

theorem queryDeepAll_total_when_accepted:
  "(onlyDelims s \<longrightarrow> queryDeepAll qsa document s = Inr []) \<and>
   ((\<forall>r. \<forall>f\<in>set (deepParts s). \<exists>ms. qsa r f = Inr ms) \<longrightarrow>
      (\<exists>hs. queryDeepAll qsa document s = Inr hs)) \<and>
   (\<forall>f fs x. deepParts s = f # fs \<and> qsa document f = Inl x \<longrightarrow>
      queryDeepAll qsa document s = Inl x)"
proof (intro conjI impI allI)
  assume "onlyDelims s"
  then have "deepParts s = []" by (rule deepParts_onlyDelims)
  then show "queryDeepAll qsa document s = Inr []" by (simp add: queryDeepAll_def)
next
  assume "\<forall>r. \<forall>f\<in>set (deepParts s). \<exists>ms. qsa r f = Inr ms"
  then have "queryDeepAll qsa document s =
      Inr (filter inScriptWindow (map fst (deepEval qsa [([], document)] (deepParts s))))"
    by (rule queryDeepAll_deepEval)
  then show "\<exists>hs. queryDeepAll qsa document s = Inr hs" by blast
next
  fix f fs x assume "deepParts s = f # fs \<and> qsa document f = Inl x"
  then show "queryDeepAll qsa document s = Inl x"
    using queryDeepAll_throws [of s f fs qsa document x] by simp
qed

text \<open>\<open>queryDeepAll\<close> is not total: the string \<open>!\<close> is no selector, and the query throws.\<close>

theorem queryDeepAll_total_counterexample:
  "queryDeepAll querySelectorAll widgetPage ''!'' = Inl SyntaxError"
  by code_simp

text \<open>A string of delimiters and blanks, an accepted selector, and a rejected one.\<close>

theorem queryDeepAll_total_when_accepted_witness:
  "onlyDelims '' >>>  >>>>>> '' \<and>
   queryDeepAll querySelectorAll widgetPage '' >>>  >>>>>> '' = Inr [] \<and>
   deepParts ''body > my-widget'' = [''body > my-widget''] \<and>
   (\<exists>hs. queryDeepAll querySelectorAll widgetPage ''body > my-widget'' = Inr hs) \<and>
   deepParts ''!'' = [''!''] \<and> querySelectorAll widgetPage ''!'' = Inl SyntaxError \<and>
   queryDeepAll querySelectorAll widgetPage ''!'' = Inl SyntaxError"
proof -
  have od: "onlyDelims '' >>>  >>>>>> ''" by code_simp
  have p: "deepParts ''body > my-widget'' = [''body > my-widget'']" by code_simp
  have a: "parseSelector ''body > my-widget'' = Some [[TagSel ''body''], [TagSel ''my-widget'']]"
    by code_simp
  have acc: "\<forall>r. \<forall>f\<in>set (deepParts ''body > my-widget''). \<exists>ms. querySelectorAll r f = Inr ms"
    using a by (simp add: p querySelectorAll_def)
  have p': "deepParts ''!'' = [''!'']" by code_simp
  have x: "querySelectorAll widgetPage ''!'' = Inl SyntaxError" by code_simp
  from queryDeepAll_total_when_accepted [of "'' >>>  >>>>>> ''" querySelectorAll widgetPage] od
  have r1: "queryDeepAll querySelectorAll widgetPage '' >>>  >>>>>> '' = Inr []" by blast
  from queryDeepAll_total_when_accepted [of "''body > my-widget''" querySelectorAll widgetPage] acc
  have r2: "\<exists>hs. queryDeepAll querySelectorAll widgetPage ''body > my-widget'' = Inr hs" by blast
  from queryDeepAll_total_when_accepted [of "''!''" querySelectorAll widgetPage] p' x
  have r3: "queryDeepAll querySelectorAll widgetPage ''!'' = Inl SyntaxError" by blast
  from od r1 p r2 p' x r3 show ?thesis by blast
qed

section \<open>Properties of the label extraction\<close>

lemma firstMatch_single: "firstMatch [x] = x"
  by (cases x) simp_all

lemma nodeAt_butlast:
  "nodeAt r p = Some n \<Longrightarrow> 2 \<le> length p \<Longrightarrow> \<exists>m. nodeAt r (butlast p) = Some m"
proof (induction r p rule: nodeAt.induct)
  case (1 ns)
  then show ?case by simp
next
  case (2 ns i)
  then show ?case by simp
next
  case (3 ns i j p)
  show ?case
  proof (cases p)
    case Nil
    with "3.prems" show ?thesis by (simp split: if_splits)
  next
    case (Cons k q)
    with "3.prems" "3.IH" show ?thesis by (simp split: if_splits)
  qed
qed

lemma prefixes_step:
  assumes "2 \<le> length p"
  shows "rev (map (\<lambda>k. take k p) [1..<length p]) =
         butlast p # rev (map (\<lambda>k. take k (butlast p)) [1..<length (butlast p)])"
proof -
  from assms obtain n where n: "length p = Suc (Suc n)"
    by (metis Suc_le_D numeral_2_eq_2 Suc_le_mono)
  have up: "[1..<length p] = [1..<Suc n] @ [Suc n]" using n by simp
  have same: "map (\<lambda>k. take k p) [1..<Suc n] = map (\<lambda>k. take k (butlast p)) [1..<Suc n]"
    using n by (intro map_cong) (auto simp: butlast_conv_take)
  have top: "take (Suc n) p = butlast p" using n by (simp add: butlast_conv_take)
  have len: "length (butlast p) = Suc n" using n by simp
  have "rev (map (\<lambda>k. take k p) [1..<length p]) =
        take (Suc n) p # rev (map (\<lambda>k. take k p) [1..<Suc n])"
    unfolding up by simp
  then show ?thesis unfolding same top len .
qed

lemma enclosingLabel_step:
  assumes two: "2 \<le> length p" and parent: "nodeAt r (butlast p) = Some parent"
  shows "enclosingLabel r p =
         (if hasTag ''label'' parent then Some parent else enclosingLabel r (butlast p))"
  unfolding enclosingLabel_def prefixes_step [OF two] using parent by simp

lemma ancestorLabel_enclosing:
  "nodeAt r p = Some n \<Longrightarrow> ancestorLabel r p = enclosingLabel r p"
proof (induction r p arbitrary: n rule: ancestorLabel.induct)
  case (1 r p)
  show ?case
  proof (cases "length p < 2")
    case True
    then have e: "[1..<length p] = []" by simp
    have "enclosingLabel r p = None" unfolding enclosingLabel_def e by simp
    with True show ?thesis
      by (subst ancestorLabel.simps) simp
  next
    case False
    then have two: "2 \<le> length p" by simp
    from nodeAt_butlast [OF "1.prems" two] obtain parent
      where parent: "nodeAt r (butlast p) = Some parent" by blast
    note step = enclosingLabel_step [OF two parent]
    show ?thesis
    proof (cases "hasTag ''label'' parent")
      case True
      with False parent step show ?thesis
        by (subst ancestorLabel.simps) simp
    next
      case nl: False
      from "1.IH" [OF False parent nl parent]
      have "ancestorLabel r (butlast p) = enclosingLabel r (butlast p)" .
      with False parent nl step show ?thesis
        by (subst ancestorLabel.simps) simp
    qed
  qed
qed

lemma idLabel_query:
  assumes "elemId e \<noteq> []"
    and "qsa document (labelFor (elemId e)) = Inr (labelsFor document (elemId e))"
  shows "andThen (querySelector qsa document (labelFor (elemId e)))
           (\<lambda>l. Inr (case l of None \<Rightarrow> None | Some lp \<Rightarrow> nodeAt document lp)) =
         Inr (idLabel document e)"
    and "andThen (querySelector qsa document (labelFor (elemId e)))
           (\<lambda>lab. Inr (case lab of
                          None \<Rightarrow> None
                        | Some lp \<Rightarrow>
                            (case nodeAt document lp of
                               None \<Rightarrow> None
                             | Some n \<Rightarrow> orNull (trim (textContent n))))) =
         Inr (nonEmptyLabelText (idLabel document e))"
  using assms
  by (auto simp: querySelector_def andThen_def idLabel_def nonEmptyLabelText_def
      split: list.splits option.splits)

lemma inScriptWindow_path: "inScriptWindow (map Child p)"
  by (auto simp: inScriptWindow_def)

text \<open>
  C7.  Let a field lie in the document itself, at a path \<open>p\<close>, and let the selector engine
  answer the query for the labels of the field's id with the labels of the document
  whose \<open>for\<close> attribute is that id.  Then \<open>extractLabelText\<close> yields the trimmed text of the
  first match among (1) the label associated through the id, for an input, select or
  textarea, and (3) an immediately preceding sibling label; it does not consult an
  enclosing label.  \<open>resolveLabelText\<close> yields the white-space-collapsed text of the first
  match among (1) the label associated through the id and (2) the nearest enclosing
  label ancestor, where a label with a blank text is no match; it does not consult a
  preceding sibling.  No match yields an absent label.
\<close>

theorem label_precedence:
  "nodeAt document p = Some (Element e ch sh fr) \<and>
   (elemId e \<noteq> [] \<longrightarrow>
      qsa document (labelFor (elemId e)) = Inr (labelsFor document (elemId e))) \<longrightarrow>
     extractLabelText qsa document (map Child p) document p =
       Inr (map_option labelText
             (firstMatch [if isControlTag e then idLabel document e else None,
                          precedingLabel document p])) \<and>
     resolveLabelText qsa document document p =
       Inr (map_option collapseSpaces
             (firstMatch [nonEmptyLabelText (idLabel document e),
                          nonEmptyLabelText (enclosingLabel document p)]))"
proof (intro impI conjI)
  assume "nodeAt document p = Some (Element e ch sh fr) \<and>
   (elemId e \<noteq> [] \<longrightarrow>
      qsa document (labelFor (elemId e)) = Inr (labelsFor document (elemId e)))"
  then have n: "nodeAt document p = Some (Element e ch sh fr)"
    and q: "elemId e \<noteq> [] \<Longrightarrow>
      qsa document (labelFor (elemId e)) = Inr (labelsFor document (elemId e))"
    by simp_all
  let ?l = "if isControlTag e then idLabel document e else None"
  have fc: "isFormControl (map Child p) e = isControlTag e"
    by (simp add: isFormControl_def isControlTag_def inScriptWindow_path)
  have first: "(if isFormControl (map Child p) e \<and> elemId e \<noteq> []
                then andThen (querySelector qsa document (labelFor (elemId e)))
                       (\<lambda>l. Inr (case l of None \<Rightarrow> None | Some lp \<Rightarrow> nodeAt document lp))
                else Inr None) = Inr ?l"
    using idLabel_query(1) [where e = e and qsa = qsa and document = document] q
    by (auto simp: fc idLabel_def)
  have "extractLabelText qsa document (map Child p) document p =
        andThen (if isFormControl (map Child p) e \<and> elemId e \<noteq> []
                 then andThen (querySelector qsa document (labelFor (elemId e)))
                        (\<lambda>l. Inr (case l of None \<Rightarrow> None | Some lp \<Rightarrow> nodeAt document lp))
                 else Inr None)
          (\<lambda>l. case l of
                  Some lab \<Rightarrow> Inr (Some (trim (textContent lab)))
                | None \<Rightarrow>
                    (case previousElementSibling document p of
                       Some prev \<Rightarrow>
                         if hasTag ''label'' prev then Inr (Some (trim (textContent prev)))
                         else Inr None
                     | None \<Rightarrow> Inr None))"
    unfolding extractLabelText_def n by simp
  also have "\<dots> =
        andThen (Inr ?l)
          (\<lambda>l. case l of
                  Some lab \<Rightarrow> Inr (Some (trim (textContent lab)))
                | None \<Rightarrow>
                    (case previousElementSibling document p of
                       Some prev \<Rightarrow>
                         if hasTag ''label'' prev then Inr (Some (trim (textContent prev)))
                         else Inr None
                     | None \<Rightarrow> Inr None))"
    unfolding first ..
  also have "\<dots> = Inr (map_option labelText (firstMatch [?l, precedingLabel document p]))"
    by (cases ?l)
       (auto simp: andThen_def precedingLabel_def labelText_def split: option.splits)
  finally show "extractLabelText qsa document (map Child p) document p =
       Inr (map_option labelText
             (firstMatch [if isControlTag e then idLabel document e else None,
                          precedingLabel document p]))" .
next
  assume "nodeAt document p = Some (Element e ch sh fr) \<and>
   (elemId e \<noteq> [] \<longrightarrow>
      qsa document (labelFor (elemId e)) = Inr (labelsFor document (elemId e)))"
  then have n: "nodeAt document p = Some (Element e ch sh fr)"
    and q: "elemId e \<noteq> [] \<Longrightarrow>
      qsa document (labelFor (elemId e)) = Inr (labelsFor document (elemId e))"
    by simp_all
  let ?l = "idLabel document e"
  have anc: "ancestorLabel document p = enclosingLabel document p"
    using n by (rule ancestorLabel_enclosing)
  have first: "(if elemId e \<noteq> []
                   then andThen (querySelector qsa document (labelFor (elemId e)))
                          (\<lambda>lab. Inr (case lab of
                                         None \<Rightarrow> None
                                       | Some lp \<Rightarrow>
                                           (case nodeAt document lp of
                                              None \<Rightarrow> None
                                            | Some n \<Rightarrow> orNull (trim (textContent n)))))
                   else Inr None) = Inr (nonEmptyLabelText ?l)"
    using idLabel_query(2) [where e = e and qsa = qsa and document = document] q
    by (auto simp: idLabel_def nonEmptyLabelText_def)
  have "resolveLabelText qsa document document p =
        andThen (if elemId e \<noteq> []
                   then andThen (querySelector qsa document (labelFor (elemId e)))
                          (\<lambda>lab. Inr (case lab of
                                         None \<Rightarrow> None
                                       | Some lp \<Rightarrow>
                                           (case nodeAt document lp of
                                              None \<Rightarrow> None
                                            | Some n \<Rightarrow> orNull (trim (textContent n)))))
                   else Inr None)
          (\<lambda>labelText.
               Inr (map_option collapseSpaces
                     (case labelText of
                        Some t \<Rightarrow> Some t
                      | None \<Rightarrow>
                          (case ancestorLabel document p of
                             Some parent \<Rightarrow> orNull (trim (textContent parent))
                           | None \<Rightarrow> None))))"
    unfolding resolveLabelText_def n by simp
  also have "\<dots> = Inr (map_option collapseSpaces
                     (case nonEmptyLabelText ?l of
                        Some t \<Rightarrow> Some t
                      | None \<Rightarrow>
                          (case enclosingLabel document p of
                             Some parent \<Rightarrow> orNull (trim (textContent parent))
                           | None \<Rightarrow> None)))"
    unfolding first anc by (simp add: andThen_def)
  also have "(case nonEmptyLabelText ?l of
                        Some t \<Rightarrow> Some t
                      | None \<Rightarrow>
                          (case enclosingLabel document p of
                             Some parent \<Rightarrow> orNull (trim (textContent parent))
                           | None \<Rightarrow> None)) =
             firstMatch [nonEmptyLabelText ?l, nonEmptyLabelText (enclosingLabel document p)]"
    by (cases "nonEmptyLabelText ?l"; cases "enclosingLabel document p")
       (simp_all add: nonEmptyLabelText_def firstMatch_single split: option.splits)
  finally show "resolveLabelText qsa document document p =
          Inr (map_option collapseSpaces
                (firstMatch [nonEmptyLabelText (idLabel document e),
                             nonEmptyLabelText (enclosingLabel document p)]))" .
qed

text \<open>
  An input wrapped in its label has an enclosing label, and \<open>extractLabelText\<close> finds
  none.  An input that follows its label has a preceding sibling label, and
  \<open>resolveLabelText\<close> finds none.  An editable region is named by the \<open>for\<close> attribute of a
  label, and \<open>extractLabelText\<close> finds none.  An input is named by the \<open>for\<close> attribute of
  a blank label and wrapped in another label, and \<open>resolveLabelText\<close> yields the text of
  the latter.  An input in a shadow root is named by the \<open>for\<close> attribute of a label of
  that shadow root, and neither function, looking in the document, finds it.
\<close>

theorem label_precedence_counterexample:
  "enclosingLabel wrappedPage [0, 1, 0, 1] = Some (plain ''label'' [Text ''Name'', textInput]) \<and>
   extractLabelText querySelectorAll wrappedPage [Child 0, Child 1, Child 0, Child 1]
     wrappedPage [0, 1, 0, 1] = Inr None \<and>
   precedingLabel precededPage [0, 1, 1] = Some (plain ''label'' [Text ''Name'']) \<and>
   resolveLabelText querySelectorAll precededPage precededPage [0, 1, 1] = Inr None \<and>
   nodeAt editablePage [0, 1, 0] = Some (editable ''bio'') \<and>
   labelsFor editablePage ''bio'' = [[0, 1, 1]] \<and>
   nodeAt editablePage [0, 1, 1] = Some (labelOf ''bio'' ''Bio'') \<and>
   extractLabelText querySelectorAll editablePage [Child 0, Child 1, Child 0]
     editablePage [0, 1, 0] = Inr None \<and>
   nodeAt blankLabelPage [0, 1, 1, 1] = Some (inputWithId ''email'') \<and>
   labelsFor blankLabelPage ''email'' = [[0, 1, 0]] \<and>
   nodeAt blankLabelPage [0, 1, 0] = Some (labelOf ''email'' '' '') \<and>
   resolveLabelText querySelectorAll blankLabelPage blankLabelPage [0, 1, 1, 1] =
     Inr (Some ''Other'') \<and>
   labelsFor [inputWithId ''email'', labelOf ''email'' ''E-mail''] ''email'' = [[1]] \<and>
   extractLabelText querySelectorAll shadowLabelPage
     [Child 0, Child 1, Child 0, ShadowStep, Child 0]
     [inputWithId ''email'', labelOf ''email'' ''E-mail''] [0] = Inr None \<and>
   resolveLabelText querySelectorAll shadowLabelPage
     [inputWithId ''email'', labelOf ''email'' ''E-mail''] [0] = Inr None"
  by code_simp

text \<open>
  The two functions on the wrapped input, on the input that follows its label, and on
  the input with an id-linked label, where rule (1) wins over the enclosing label.
\<close>

theorem label_precedence_witness:
  "nodeAt wrappedPage [0, 1, 0, 1] = Some textInput \<and>
   extractLabelText querySelectorAll wrappedPage [Child 0, Child 1, Child 0, Child 1]
     wrappedPage [0, 1, 0, 1] = Inr None \<and>
   resolveLabelText querySelectorAll wrappedPage wrappedPage [0, 1, 0, 1] = Inr (Some ''Name'') \<and>
   nodeAt precededPage [0, 1, 1] = Some textInput \<and>
   extractLabelText querySelectorAll precededPage [Child 0, Child 1, Child 1]
     precededPage [0, 1, 1] = Inr (Some ''Name'') \<and>
   resolveLabelText querySelectorAll precededPage precededPage [0, 1, 1] = Inr None \<and>
   nodeAt linkedPage [0, 1, 1, 1] = Some (inputWithId ''email'') \<and>
   querySelectorAll linkedPage (labelFor ''email'') = Inr (labelsFor linkedPage ''email'') \<and>
   extractLabelText querySelectorAll linkedPage [Child 0, Child 1, Child 1, Child 1]
     linkedPage [0, 1, 1, 1] = Inr (Some ''E-mail'') \<and>
   resolveLabelText querySelectorAll linkedPage linkedPage [0, 1, 1, 1] = Inr (Some ''E-mail'')"
proof -
  let ?e = "\<lparr>tagName = ''input'', elemId = [], className = [], typeProp = ''text'', nameProp = [],
      htmlFor = [], isContentEditable = False\<rparr>"
  let ?i = "\<lparr>tagName = ''input'', elemId = ''email'', className = [], typeProp = ''text'', nameProp = [],
      htmlFor = [], isContentEditable = False\<rparr>"
  have n1: "nodeAt wrappedPage [0, 1, 0, 1] = Some (Element ?e [] None NoWindow)" by code_simp
  have n2: "nodeAt precededPage [0, 1, 1] = Some (Element ?e [] None NoWindow)" by code_simp
  have n3: "nodeAt linkedPage [0, 1, 1, 1] = Some (Element ?i [] None NoWindow)" by code_simp
  have q3: "querySelectorAll linkedPage (labelFor ''email'') = Inr (labelsFor linkedPage ''email'')"
    by code_simp
  have v1: "map_option labelText
              (firstMatch [if isControlTag ?e then idLabel wrappedPage ?e else None,
                           precedingLabel wrappedPage [0, 1, 0, 1]]) = None"
    by code_simp
  have v2: "map_option collapseSpaces
              (firstMatch [nonEmptyLabelText (idLabel wrappedPage ?e),
                           nonEmptyLabelText (enclosingLabel wrappedPage [0, 1, 0, 1])])
            = Some ''Name''" by code_simp
  have v3: "map_option labelText
              (firstMatch [if isControlTag ?e then idLabel precededPage ?e else None,
                           precedingLabel precededPage [0, 1, 1]]) = Some ''Name''"
    by code_simp
  have v4: "map_option collapseSpaces
              (firstMatch [nonEmptyLabelText (idLabel precededPage ?e),
                           nonEmptyLabelText (enclosingLabel precededPage [0, 1, 1])])
            = None" by code_simp
  have v5: "map_option labelText
              (firstMatch [if isControlTag ?i then idLabel linkedPage ?i else None,
                           precedingLabel linkedPage [0, 1, 1, 1]])
            = Some ''E-mail''" by code_simp
  have v6: "map_option collapseSpaces
              (firstMatch [nonEmptyLabelText (idLabel linkedPage ?i),
                           nonEmptyLabelText (enclosingLabel linkedPage [0, 1, 1, 1])])
            = Some ''E-mail''" by code_simp
  have m1: "map Child [0, 1, 0, 1] = [Child 0, Child 1, Child 0, Child 1]" by simp
  have m2: "map Child [0, 1, 1] = [Child 0, Child 1, Child 1]" by simp
  have m3: "map Child [0, 1, 1, 1] = [Child 0, Child 1, Child 1, Child 1]" by simp
  from label_precedence [of wrappedPage "[0, 1, 0, 1]" ?e "[]" None NoWindow querySelectorAll] n1
  have a: "extractLabelText querySelectorAll wrappedPage [Child 0, Child 1, Child 0, Child 1]
             wrappedPage [0, 1, 0, 1] = Inr None"
    and b: "resolveLabelText querySelectorAll wrappedPage wrappedPage [0, 1, 0, 1] = Inr (Some ''Name'')"
    unfolding v1 v2 m1 by simp_all
  from label_precedence [of precededPage "[0, 1, 1]" ?e "[]" None NoWindow querySelectorAll] n2
  have c: "extractLabelText querySelectorAll precededPage [Child 0, Child 1, Child 1]
             precededPage [0, 1, 1] = Inr (Some ''Name'')"
    and d: "resolveLabelText querySelectorAll precededPage precededPage [0, 1, 1] = Inr None"
    unfolding v3 v4 m2 by simp_all
  from label_precedence [of linkedPage "[0, 1, 1, 1]" ?i "[]" None NoWindow querySelectorAll] n3 q3
  have e: "extractLabelText querySelectorAll linkedPage [Child 0, Child 1, Child 1, Child 1]
             linkedPage [0, 1, 1, 1] = Inr (Some ''E-mail'')"
    and f: "resolveLabelText querySelectorAll linkedPage linkedPage [0, 1, 1, 1] = Inr (Some ''E-mail'')"
    unfolding v5 v6 m3 by simp_all
  from n1 n2 n3 q3 a b c d e f show ?thesis by (simp add: textInput_def inputWithId_def)
qed
section \<open>Properties of the resolver\<close>

text \<open>
  C4.  Let the boundary chain of a descriptor resolve to a final context.  When the
  selector engine accepts the local selector there, \<open>_resolveElement\<close> returns null if it
  matches no node and the first match in document order if it matches one node or
  several; it has no outcome that tells several matches from one.  When the engine
  throws on the local selector, so does \<open>_resolveElement\<close>.
\<close>

theorem resolveElement_first_match:
  "walkHops qsa (framePath m) (Some ([], document)) ([], document) = Inr (Some (Some (h, r))) \<longrightarrow>
     (\<forall>ms. qsa r (fm_selector m) = Inr ms \<longrightarrow>
           resolveElement qsa document m =
             Inr (case ms of [] \<Rightarrow> None | p # _ \<Rightarrow> Some (h @ map Child p))) \<and>
     (\<forall>x. qsa r (fm_selector m) = Inl x \<longrightarrow> resolveElement qsa document m = Inl x)"
  by (auto simp: resolveElement_def querySelector_def andThen_def split: list.splits)

text \<open>
  A selector with two matches in the document: the resolver returns the first of them.
\<close>

theorem resolveElement_ambiguous_counterexample:
  "querySelectorAll twoInputsPage ''input'' = Inr [[0, 1, 0], [0, 1, 1]] \<and>
   resolveElement querySelectorAll twoInputsPage
     \<lparr>fm_selector = ''input'', fm_column = ''COL_1'', fm_type = ''input'', framePath = []\<rparr>
     = Inr (Some [Child 0, Child 1, Child 0])"
  by code_simp

text \<open>
  In the shadow root of the custom element: two matches, no match, and a string that
  is no selector.
\<close>

theorem resolveElement_first_match_witness:
  "walkHops querySelectorAll [HostSelector ''my-widget''] (Some ([], twoInputsPage)) ([], twoInputsPage)
     = Inr (Some (Some ([Child 0, Child 1, Child 2, ShadowStep], [textInput, textInput]))) \<and>
   querySelectorAll [textInput, textInput] ''input'' = Inr [[0], [1]] \<and>
   resolveElement querySelectorAll twoInputsPage
     \<lparr>fm_selector = ''input'', fm_column = ''COL_1'', fm_type = ''input'',
      framePath = [HostSelector ''my-widget'']\<rparr>
     = Inr (Some [Child 0, Child 1, Child 2, ShadowStep, Child 0]) \<and>
   querySelectorAll [textInput, textInput] ''select'' = Inr [] \<and>
   resolveElement querySelectorAll twoInputsPage
     \<lparr>fm_selector = ''select'', fm_column = ''COL_1'', fm_type = ''select'',
      framePath = [HostSelector ''my-widget'']\<rparr> = Inr None \<and>
   querySelectorAll [textInput, textInput] ''!'' = Inl SyntaxError \<and>
   resolveElement querySelectorAll twoInputsPage
     \<lparr>fm_selector = ''!'', fm_column = ''COL_1'', fm_type = ''input'',
      framePath = [HostSelector ''my-widget'']\<rparr> = Inl SyntaxError"
proof -
  let ?r = "[textInput, textInput]"
  let ?h = "[Child 0, Child 1, Child 2, ShadowStep]"
  have w: "walkHops querySelectorAll [HostSelector ''my-widget''] (Some ([], twoInputsPage)) ([], twoInputsPage)
     = Inr (Some (Some (?h, ?r)))" by code_simp
  have q1: "querySelectorAll ?r ''input'' = Inr [[0], [1]]" by code_simp
  have q2: "querySelectorAll ?r ''select'' = Inr []" by code_simp
  have q3: "querySelectorAll ?r ''!'' = Inl SyntaxError" by code_simp
  from resolveElement_first_match [of querySelectorAll
      "\<lparr>fm_selector = ''input'', fm_column = ''COL_1'', fm_type = ''input'',
        framePath = [HostSelector ''my-widget'']\<rparr>" twoInputsPage ?h ?r] w q1
  have a: "resolveElement querySelectorAll twoInputsPage
     \<lparr>fm_selector = ''input'', fm_column = ''COL_1'', fm_type = ''input'',
      framePath = [HostSelector ''my-widget'']\<rparr>
     = Inr (Some [Child 0, Child 1, Child 2, ShadowStep, Child 0])" by simp
  from resolveElement_first_match [of querySelectorAll
      "\<lparr>fm_selector = ''select'', fm_column = ''COL_1'', fm_type = ''select'',
        framePath = [HostSelector ''my-widget'']\<rparr>" twoInputsPage ?h ?r] w q2
  have b: "resolveElement querySelectorAll twoInputsPage
     \<lparr>fm_selector = ''select'', fm_column = ''COL_1'', fm_type = ''select'',
      framePath = [HostSelector ''my-widget'']\<rparr> = Inr None" by simp
  from resolveElement_first_match [of querySelectorAll
      "\<lparr>fm_selector = ''!'', fm_column = ''COL_1'', fm_type = ''input'',
        framePath = [HostSelector ''my-widget'']\<rparr>" twoInputsPage ?h ?r] w q3
  have c: "resolveElement querySelectorAll twoInputsPage
     \<lparr>fm_selector = ''!'', fm_column = ''COL_1'', fm_type = ''input'',
      framePath = [HostSelector ''my-widget'']\<rparr> = Inl SyntaxError" by simp
  from w q1 a q2 b q3 c show ?thesis by simp
qed

section \<open>Properties of the scan\<close>

lemma andThen_Inr: "(andThen x f = Inr v) = (\<exists>a. x = Inr a \<and> f a = Inr v)"
  by (cases x) (simp_all add: andThen_def)

lemma fields_lengths:
  "list_all (\<lambda>x. length h \<le> length x) (fieldsIn t cfg h n)"
  "list_all (\<lambda>x. length h < length x) (fieldsAmong t cfg h i ns)"
proof (induction t cfg h n and t cfg h i ns rule: fieldsIn_fieldsAmong.induct)
  case (1 t cfg h s)
  show ?case by simp
next
  case (2 t cfg h e ch sh fr)
  have a: "list_all (\<lambda>x. length h \<le> length x) (if t h e then [h] else [])" by simp
  have b: "list_all (\<lambda>x. length h \<le> length x)
             (case sh of
                Some sr \<Rightarrow> if includeShadowDom cfg \<and> shadowRoot (Element e ch sh fr) \<noteq> None then fieldsAmong t cfg (h @ [ShadowStep]) 0 sr else []
              | None \<Rightarrow> [])"
  proof (cases sh)
    case None
    then show ?thesis by simp
  next
    case (Some sr)
    show ?thesis
    proof (cases "includeShadowDom cfg \<and> shadowRoot (Element e ch sh fr) \<noteq> None")
      case True
      from "2.IH"(1) [OF Some True]
      have "list_all (\<lambda>x. length (h @ [ShadowStep]) < length x) (fieldsAmong t cfg (h @ [ShadowStep]) 0 sr)" .
      then have "list_all (\<lambda>x. length h \<le> length x) (fieldsAmong t cfg (h @ [ShadowStep]) 0 sr)"
        by (rule list.pred_mono_strong) simp
      with Some True show ?thesis by simp
    next
      case False
      with Some show ?thesis by auto
    qed
  qed
  have c: "list_all (\<lambda>x. length h \<le> length x)
             (case fr of
                SameOrigin d \<Rightarrow>
                  if iframeTraversal cfg \<and> tagName e = ''iframe''
                  then fieldsAmong t cfg (h @ [FrameStep]) 0 d else []
              | _ \<Rightarrow> [])"
  proof (cases fr)
    case NoWindow
    then show ?thesis by simp
  next
    case CrossOrigin
    then show ?thesis by simp
  next
    case (SameOrigin d)
    show ?thesis
    proof (cases "iframeTraversal cfg \<and> tagName e = ''iframe''")
      case True
      from "2.IH"(2) [OF SameOrigin True]
      have "list_all (\<lambda>x. length (h @ [FrameStep]) < length x) (fieldsAmong t cfg (h @ [FrameStep]) 0 d)" .
      then have "list_all (\<lambda>x. length h \<le> length x) (fieldsAmong t cfg (h @ [FrameStep]) 0 d)"
        by (rule list.pred_mono_strong) simp
      with SameOrigin True show ?thesis by simp
    next
      case False
      with SameOrigin show ?thesis by auto
    qed
  qed
  have d: "list_all (\<lambda>x. length h \<le> length x) (fieldsAmong t cfg h 0 ch)"
    using "2.IH"(3) by (rule list.pred_mono_strong) simp
  from a b c d show ?case by simp
next
  case (3 t cfg h i)
  show ?case by simp
next
  case (4 t cfg h i n ns)
  have "list_all (\<lambda>x. length h < length x) (fieldsIn t cfg (h @ [Child i]) n)"
    using "4.IH"(1) by (rule list.pred_mono_strong) simp
  with "4.IH"(2) show ?case by simp
qed

lemma hiddenIn:
  "maxDepth cfg < length h \<Longrightarrow> filter (\<lambda>x. length x \<le> maxDepth cfg) (fieldsIn t cfg h n) = []"
  using fields_lengths(1) [of h t cfg n] by (auto simp: filter_empty_conv list_all_iff)

lemma hiddenAmong:
  "maxDepth cfg \<le> length h \<Longrightarrow> filter (\<lambda>x. length x \<le> maxDepth cfg) (fieldsAmong t cfg h i ns) = []"
  using fields_lengths(2) [of h t cfg i ns] by (auto simp: filter_empty_conv list_all_iff)

lemma traverse_fields:
  "\<forall>rs. traverse qsa cfg document h r p pathParts depth n = Inr rs \<longrightarrow> depth = length h \<longrightarrow>
        map fst rs = filter (\<lambda>x. length x \<le> maxDepth cfg) (fieldsIn isFillable cfg h n)"
  "\<forall>rs. traverseAll qsa cfg document h r p pathParts depth i ns = Inr rs \<longrightarrow> depth = Suc (length h) \<longrightarrow>
        map fst rs = filter (\<lambda>x. length x \<le> maxDepth cfg) (fieldsAmong isFillable cfg h i ns)"
proof (induction qsa cfg document h r p pathParts depth n and qsa cfg document h r p pathParts depth i ns
       rule: traverse_traverseAll.induct)
  case (1 qsa cfg document h r p pathParts depth s)
  show ?case by simp
next
  case (2 qsa cfg document h r p pathParts depth e ch sh fr)
  let ?vis = "filter (\<lambda>x. length x \<le> maxDepth cfg)"
  show ?case
  proof (intro allI impI)
    fix rs
    assume t: "traverse qsa cfg document h r p pathParts depth (Element e ch sh fr) = Inr rs"
      and d: "depth = length h"
    show "map fst rs = ?vis (fieldsIn isFillable cfg h (Element e ch sh fr))"
    proof (cases "maxDepth cfg < depth")
      case True
      with t have "rs = []" by simp
      moreover from True d have "?vis (fieldsIn isFillable cfg h (Element e ch sh fr)) = []"
        by (intro hiddenIn) simp
      ultimately show ?thesis by simp
    next
      case False
      from t False obtain own inShadow inFrame below where
        own: "(if isFillable h e
                 then andThen (fieldInfo qsa document h r p pathParts e) (\<lambda>info. Inr [(h, info)])
                 else Inr []) = Inr own"
        and shadow: "(case sh of
                   Some sr \<Rightarrow>
                     if includeShadowDom cfg \<and> shadowRoot (Element e ch sh fr) \<noteq> None
                     then andThen (uniqueSelector qsa r p)
                            (\<lambda>hostSelector.
                               if depth + 1 > maxDepth cfg then Inr []
                               else traverseAll qsa cfg document (h @ [ShadowStep]) sr []
                                      (pathParts @ [hostSelector]) (depth + 2) 0 sr)
                     else Inr []
                 | None \<Rightarrow> Inr []) = Inr inShadow"
        and frame: "(case fr of
                   SameOrigin d \<Rightarrow>
                     if iframeTraversal cfg \<and> tagName e = ''iframe''
                     then andThen (uniqueSelector qsa r p)
                            (\<lambda>iframeSelector.
                               if depth + 1 > maxDepth cfg then Inr []
                               else traverseAll qsa cfg document (h @ [FrameStep]) d []
                                      (pathParts @ [iframeSelector]) (depth + 2) 0 d)
                     else Inr []
                 | _ \<Rightarrow> Inr []) = Inr inFrame"
        and below: "traverseAll qsa cfg document h r p pathParts (depth + 1) 0 ch = Inr below"
        and rs: "rs = own @ inShadow @ inFrame @ below"
        by (simp add: andThen_Inr) blast
      have 1: "map fst own = ?vis (if isFillable h e then [h] else [])"
        using own False d by (auto simp: andThen_Inr split: if_splits)
      have 2: "map fst inShadow = ?vis (case sh of
                  Some sr \<Rightarrow> if includeShadowDom cfg \<and> shadowRoot (Element e ch sh fr) \<noteq> None then fieldsAmong isFillable cfg (h @ [ShadowStep]) 0 sr else []
                | None \<Rightarrow> [])"
      proof (cases sh)
        case None
        with shadow show ?thesis by simp
      next
        case (Some sr)
        show ?thesis
        proof (cases "includeShadowDom cfg \<and> shadowRoot (Element e ch sh fr) \<noteq> None")
          case no: False
          with Some shadow show ?thesis by auto
        next
          case True
          from shadow Some True obtain hostSelector where
            inner: "(if depth + 1 > maxDepth cfg then Inr []
                     else traverseAll qsa cfg document (h @ [ShadowStep]) sr []
                            (pathParts @ [hostSelector]) (depth + 2) 0 sr) = Inr inShadow"
            by (auto simp: andThen_Inr)
          show ?thesis
          proof (cases "depth + 1 > maxDepth cfg")
            case deep: True
            with inner have "inShadow = []" by simp
            moreover from deep d have "?vis (fieldsAmong isFillable cfg (h @ [ShadowStep]) 0 sr) = []"
              by (intro hiddenAmong) simp
            ultimately show ?thesis using Some True by simp
          next
            case shallow: False
            with inner have "traverseAll qsa cfg document (h @ [ShadowStep]) sr []
                            (pathParts @ [hostSelector]) (depth + 2) 0 sr = Inr inShadow" by simp
            moreover have "depth + 2 = Suc (length (h @ [ShadowStep]))" using d by simp
            ultimately have "map fst inShadow = ?vis (fieldsAmong isFillable cfg (h @ [ShadowStep]) 0 sr)"
              using "2.IH"(1) [OF False Some True shallow] by blast
            with Some True show ?thesis by simp
          qed
        qed
      qed
      have 3: "map fst inFrame = ?vis (case fr of
                  SameOrigin d \<Rightarrow>
                    if iframeTraversal cfg \<and> tagName e = ''iframe''
                    then fieldsAmong isFillable cfg (h @ [FrameStep]) 0 d else []
                | _ \<Rightarrow> [])"
      proof (cases fr)
        case NoWindow
        with frame show ?thesis by simp
      next
        case CrossOrigin
        with frame show ?thesis by simp
      next
        case (SameOrigin doc)
        show ?thesis
        proof (cases "iframeTraversal cfg \<and> tagName e = ''iframe''")
          case no: False
          with SameOrigin frame show ?thesis by auto
        next
          case True
          from frame SameOrigin True obtain iframeSelector where
            inner: "(if depth + 1 > maxDepth cfg then Inr []
                     else traverseAll qsa cfg document (h @ [FrameStep]) doc []
                            (pathParts @ [iframeSelector]) (depth + 2) 0 doc) = Inr inFrame"
            by (auto simp: andThen_Inr)
          show ?thesis
          proof (cases "depth + 1 > maxDepth cfg")
            case deep: True
            with inner have "inFrame = []" by simp
            moreover from deep d have "?vis (fieldsAmong isFillable cfg (h @ [FrameStep]) 0 doc) = []"
              by (intro hiddenAmong) simp
            ultimately show ?thesis using SameOrigin True by simp
          next
            case shallow: False
            with inner have "traverseAll qsa cfg document (h @ [FrameStep]) doc []
                            (pathParts @ [iframeSelector]) (depth + 2) 0 doc = Inr inFrame" by simp
            moreover have "depth + 2 = Suc (length (h @ [FrameStep]))" using d by simp
            ultimately have "map fst inFrame = ?vis (fieldsAmong isFillable cfg (h @ [FrameStep]) 0 doc)"
              using "2.IH"(2) [OF False SameOrigin True shallow] by blast
            with SameOrigin True show ?thesis by simp
          qed
        qed
      qed
      have 4: "map fst below = ?vis (fieldsAmong isFillable cfg h 0 ch)"
        using "2.IH"(3) [OF False] below d by simp
      show ?thesis unfolding rs using 1 2 3 4 by simp
    qed
  qed
next
  case (3 qsa cfg document h r p pathParts depth i)
  show ?case by simp
next
  case (4 qsa cfg document h r p pathParts depth i n ns)
  let ?vis = "filter (\<lambda>x. length x \<le> maxDepth cfg)"
  show ?case
  proof (intro allI impI)
    fix rs
    assume t: "traverseAll qsa cfg document h r p pathParts depth i (n # ns) = Inr rs"
      and d: "depth = Suc (length h)"
    from t obtain first others where
      first: "traverse qsa cfg document (h @ [Child i]) r (p @ [i]) pathParts depth n = Inr first"
      and others: "traverseAll qsa cfg document h r p pathParts depth (Suc i) ns = Inr others"
      and rs: "rs = first @ others"
      by (simp add: andThen_Inr) blast
    from "4.IH"(1) first d have 1: "map fst first = ?vis (fieldsIn isFillable cfg (h @ [Child i]) n)" by simp
    from "4.IH"(2) others d have 2: "map fst others = ?vis (fieldsAmong isFillable cfg h (Suc i) ns)" by simp
    show "map fst rs = ?vis (fieldsAmong isFillable cfg h i (n # ns))"
      unfolding rs using 1 2 by simp
  qed
qed

text \<open>A wider test finds more, in the same order.\<close>

lemma fields_mono:
  "\<forall>h e. t1 h e \<longrightarrow> t2 h e \<Longrightarrow> subseq (fieldsIn t1 cfg h n) (fieldsIn t2 cfg h n)"
  "\<forall>h e. t1 h e \<longrightarrow> t2 h e \<Longrightarrow> subseq (fieldsAmong t1 cfg h i ns) (fieldsAmong t2 cfg h i ns)"
proof (induction t1 cfg h n and t1 cfg h i ns rule: fieldsIn_fieldsAmong.induct)
  case (1 t1 cfg h s)
  show ?case by simp
next
  case (2 t1 cfg h e ch sh fr)
  have a: "subseq (if t1 h e then [h] else []) (if t2 h e then [h] else [])"
    using "2.prems" by auto
  have b: "subseq
      (case sh of
         Some sr \<Rightarrow>
           if includeShadowDom cfg \<and> shadowRoot (Element e ch sh fr) \<noteq> None
           then fieldsAmong t1 cfg (h @ [ShadowStep]) 0 sr else []
       | None \<Rightarrow> [])
      (case sh of
         Some sr \<Rightarrow>
           if includeShadowDom cfg \<and> shadowRoot (Element e ch sh fr) \<noteq> None
           then fieldsAmong t2 cfg (h @ [ShadowStep]) 0 sr else []
       | None \<Rightarrow> [])"
    using "2.IH"(1) "2.prems" by (auto split: option.splits)
  have c: "subseq
      (case fr of
         SameOrigin d \<Rightarrow>
           if iframeTraversal cfg \<and> tagName e = ''iframe''
           then fieldsAmong t1 cfg (h @ [FrameStep]) 0 d else []
       | _ \<Rightarrow> [])
      (case fr of
         SameOrigin d \<Rightarrow>
           if iframeTraversal cfg \<and> tagName e = ''iframe''
           then fieldsAmong t2 cfg (h @ [FrameStep]) 0 d else []
       | _ \<Rightarrow> [])"
    using "2.IH"(2) "2.prems" by (auto split: frame.splits)
  have d: "subseq (fieldsAmong t1 cfg h 0 ch) (fieldsAmong t2 cfg h 0 ch)"
    using "2.IH"(3) "2.prems" by simp
  show ?case
    unfolding fieldsIn.simps by (intro list_emb_append_mono a b c d)
next
  case (3 t1 cfg h i)
  show ?case by simp
next
  case (4 t1 cfg h i n ns)
  then show ?case by (simp add: list_emb_append_mono)
qed

lemma isFillable_plain: "isFillable = isPlainField"
  by (auto simp: fun_eq_iff isFillable_def isPlainField_def isField_def isFormControl_def
      isControlTag_def)

lemma plain_isField: "isPlainField h e \<Longrightarrow> isField h e"
  by (simp add: isPlainField_def)

text \<open>
  C3.  When a scan returns, it lists fillable elements whose handle has at most
  \<open>maxDepth\<close> steps, in the order of the traversal, and among the fillable elements with
  such a handle that can be reached through the enabled and accessible boundaries it
  lists every one that is an editable region or lies in no frame document.  A handle
  has one step for every child step and one for every entry into a shadow root or a
  frame document, the document node being at depth 0: the depth bound counts ordinary
  descent as well as boundary crossings.  In particular a scan with \<open>maxDepth = 0\<close>
  returns no descriptor.
\<close>

theorem scan_depth_counts_every_step:
  "scanned qsa cfg document = Inr rs \<longrightarrow>
     subseq (map fst rs) (filter (\<lambda>h. length h \<le> maxDepth cfg) (fillableHandles cfg document)) \<and>
     subseq (filter (\<lambda>h. length h \<le> maxDepth cfg) (plainHandles cfg document)) (map fst rs) \<and>
     scanDOM qsa cfg document = Inr (map snd rs) \<and>
     (maxDepth cfg = 0 \<longrightarrow> rs = [])"
proof
  assume s: "scanned qsa cfg document = Inr rs"
  then have t: "traverseAll qsa cfg document [] document [] [] 1 0 document = Inr rs"
    by (simp add: scanned_def)
  have e: "map fst rs = filter (\<lambda>h. length h \<le> maxDepth cfg) (plainHandles cfg document)"
    using traverse_fields(2) [of qsa cfg document "[]" document "[]" "[]" 1 0 document] t
    by (simp add: plainHandles_def isFillable_plain)
  have "subseq (plainHandles cfg document) (fillableHandles cfg document)"
    unfolding plainHandles_def fillableHandles_def
    by (rule fields_mono) (simp add: plain_isField)
  then have a: "subseq (map fst rs)
      (filter (\<lambda>h. length h \<le> maxDepth cfg) (fillableHandles cfg document))"
    unfolding e by (rule subseq_filter)
  have b: "subseq (filter (\<lambda>h. length h \<le> maxDepth cfg) (plainHandles cfg document)) (map fst rs)"
    unfolding e by simp
  have c: "scanDOM qsa cfg document = Inr (map snd rs)"
    using s by (simp add: scanDOM_def andThen_def)
  have d: "maxDepth cfg = 0 \<longrightarrow> rs = []"
  proof
    assume "maxDepth cfg = 0"
    then have "filter (\<lambda>h. length h \<le> maxDepth cfg) (fieldsAmong isPlainField cfg [] 0 document) = []"
      by (intro hiddenAmong) simp
    with e show "rs = []" by (simp add: plainHandles_def)
  qed
  from a b c d show "subseq (map fst rs)
       (filter (\<lambda>h. length h \<le> maxDepth cfg) (fillableHandles cfg document)) \<and>
     subseq (filter (\<lambda>h. length h \<le> maxDepth cfg) (plainHandles cfg document)) (map fst rs) \<and>
     scanDOM qsa cfg document = Inr (map snd rs) \<and> (maxDepth cfg = 0 \<longrightarrow> rs = [])"
    by blast
qed

text \<open>
  The page with two inputs in its body and two in a shadow root has four fillable
  elements, none of them in a frame document; the scan with \<open>maxDepth = 0\<close> returns none
  of them, and so does the scan with \<open>maxDepth = 2\<close>, although the inputs of the body lie
  behind no boundary.
\<close>

theorem scan_depth_counterexample:
  "fillableHandles \<lparr>includeShadowDom = True, maxDepth = 0, iframeTraversal = True\<rparr> twoInputsPage =
     [[Child 0, Child 1, Child 0], [Child 0, Child 1, Child 1],
      [Child 0, Child 1, Child 2, ShadowStep, Child 0],
      [Child 0, Child 1, Child 2, ShadowStep, Child 1]] \<and>
   scanDOM querySelectorAll \<lparr>includeShadowDom = True, maxDepth = 0, iframeTraversal = True\<rparr>
     twoInputsPage = Inr [] \<and>
   scanDOM querySelectorAll \<lparr>includeShadowDom = True, maxDepth = 2, iframeTraversal = True\<rparr>
     twoInputsPage = Inr []"
  by code_simp

text \<open>
  With \<open>maxDepth = 3\<close> the scan of that page returns the two inputs of the body, three
  steps below the document, and not the two of the shadow root, five steps below.  On
  the page with the iframe the editable region of the frame document is seven steps
  below the document: the scan with \<open>maxDepth = 7\<close> returns it after the input of the
  body, and the scan with \<open>maxDepth = 6\<close> returns the input of the body only.
\<close>

theorem scan_depth_counts_every_step_witness:
  "scanned querySelectorAll \<lparr>includeShadowDom = True, maxDepth = 3, iframeTraversal = True\<rparr> twoInputsPage =
     Inr [([Child 0, Child 1, Child 0],
           \<lparr>sf_selector = ''body > input:nth-of-type(1)'', sf_tag = ''input'', sf_type = ''text'',
            sf_nameAttr = None, sf_label = None\<rparr>),
          ([Child 0, Child 1, Child 1],
           \<lparr>sf_selector = ''body > input:nth-of-type(2)'', sf_tag = ''input'', sf_type = ''text'',
            sf_nameAttr = None, sf_label = None\<rparr>)] \<and>
   filter (\<lambda>h. length h \<le> 3)
     (fillableHandles \<lparr>includeShadowDom = True, maxDepth = 3, iframeTraversal = True\<rparr> twoInputsPage) =
     [[Child 0, Child 1, Child 0], [Child 0, Child 1, Child 1]] \<and>
   scanDOM querySelectorAll \<lparr>includeShadowDom = True, maxDepth = 3, iframeTraversal = True\<rparr> twoInputsPage =
     Inr [\<lparr>sf_selector = ''body > input:nth-of-type(1)'', sf_tag = ''input'', sf_type = ''text'',
            sf_nameAttr = None, sf_label = None\<rparr>,
          \<lparr>sf_selector = ''body > input:nth-of-type(2)'', sf_tag = ''input'', sf_type = ''text'',
            sf_nameAttr = None, sf_label = None\<rparr>] \<and>
   plainHandles DEFAULT_OPTIONS framePage =
     [[Child 0, Child 1, Child 0],
      [Child 0, Child 1, Child 1, FrameStep, Child 0, Child 0, Child 1]] \<and>
   scanDOM querySelectorAll DEFAULT_OPTIONS framePage =
     Inr [\<lparr>sf_selector = ''body > input'', sf_tag = ''input'', sf_type = ''text'',
            sf_nameAttr = None, sf_label = None\<rparr>,
          \<lparr>sf_selector = ''body > iframe >>> body > div'', sf_tag = ''div'', sf_type = ''div'',
            sf_nameAttr = None, sf_label = None\<rparr>] \<and>
   scanDOM querySelectorAll (DEFAULT_OPTIONS\<lparr>maxDepth := 6\<rparr>) framePage =
     Inr [\<lparr>sf_selector = ''body > input'', sf_tag = ''input'', sf_type = ''text'',
            sf_nameAttr = None, sf_label = None\<rparr>]"
proof -
  let ?cfg = "\<lparr>includeShadowDom = True, maxDepth = 3, iframeTraversal = True\<rparr>"
  let ?rs = "[([Child 0, Child 1, Child 0],
           \<lparr>sf_selector = ''body > input:nth-of-type(1)'', sf_tag = ''input'', sf_type = ''text'',
            sf_nameAttr = None, sf_label = None\<rparr>),
          ([Child 0, Child 1, Child 1],
           \<lparr>sf_selector = ''body > input:nth-of-type(2)'', sf_tag = ''input'', sf_type = ''text'',
            sf_nameAttr = None, sf_label = None\<rparr>)]"
  let ?f = "\<lparr>sf_selector = ''body > input'', sf_tag = ''input'', sf_type = ''text'',
            sf_nameAttr = None, sf_label = None\<rparr>"
  let ?g = "\<lparr>sf_selector = ''body > iframe >>> body > div'', sf_tag = ''div'', sf_type = ''div'',
            sf_nameAttr = None, sf_label = None\<rparr>"
  let ?rs7 = "[([Child 0, Child 1, Child 0], ?f),
              ([Child 0, Child 1, Child 1, FrameStep, Child 0, Child 0, Child 1], ?g)]"
  let ?rs6 = "[([Child 0, Child 1, Child 0], ?f)]"
  have s: "scanned querySelectorAll ?cfg twoInputsPage = Inr ?rs" by code_simp
  have v: "filter (\<lambda>h. length h \<le> 3) (fillableHandles ?cfg twoInputsPage) =
     [[Child 0, Child 1, Child 0], [Child 0, Child 1, Child 1]]" by code_simp
  have s7: "scanned querySelectorAll DEFAULT_OPTIONS framePage = Inr ?rs7" by code_simp
  have s6: "scanned querySelectorAll (DEFAULT_OPTIONS\<lparr>maxDepth := 6\<rparr>) framePage = Inr ?rs6"
    by code_simp
  have p7: "plainHandles DEFAULT_OPTIONS framePage =
     [[Child 0, Child 1, Child 0],
      [Child 0, Child 1, Child 1, FrameStep, Child 0, Child 0, Child 1]]" by code_simp
  from scan_depth_counts_every_step [of querySelectorAll ?cfg twoInputsPage ?rs] s
  have a: "scanDOM querySelectorAll ?cfg twoInputsPage = Inr (map snd ?rs)" by blast
  from scan_depth_counts_every_step [of querySelectorAll DEFAULT_OPTIONS framePage ?rs7] s7
  have b: "scanDOM querySelectorAll DEFAULT_OPTIONS framePage = Inr (map snd ?rs7)" by blast
  from scan_depth_counts_every_step
    [of querySelectorAll "DEFAULT_OPTIONS\<lparr>maxDepth := 6\<rparr>" framePage ?rs6] s6
  have c: "scanDOM querySelectorAll (DEFAULT_OPTIONS\<lparr>maxDepth := 6\<rparr>) framePage = Inr (map snd ?rs6)"
    by blast
  from s v a p7 b c show ?thesis by simp
qed
section \<open>Selector synthesis and the round trip\<close>

text \<open>
  C1.  The specification requires that a synthesized selector matches exactly one node
  of the context, the element itself, and that \<open>#id\<close> is emitted only for an id that is
  unique there.  The code does otherwise at four inputs.  In a shadow root that holds
  two inputs without id or class,
  \<open>uniqueSelector\<close> returns the empty string for each of them, and the empty string is
  no selector.  In a shadow root with two inputs that are each wrapped in a \<open>span\<close>,
  \<open>uniqueSelector\<close> returns \<open>span > input\<close> for the first, which matches both.  In a
  document with two inputs of the same id, \<open>buildUniqueSelector\<close> returns \<open>#a\<close>, which
  matches both.  In the shadow root with the two plain inputs \<open>buildUniqueSelector\<close>
  returns \<open>input\<close>, which matches both.
\<close>

theorem synthesized_selector_not_unique:
  "uniqueSelector querySelectorAll [textInput, textInput] [0] = Inr [] \<and>
   uniqueSelector querySelectorAll [textInput, textInput] [1] = Inr [] \<and>
   querySelectorAll [textInput, textInput] [] = Inl SyntaxError \<and>
   uniqueSelector querySelectorAll
     [plain ''div'' [plain ''span'' [textInput]], plain ''p'' [plain ''span'' [textInput]]]
     [0, 0, 0] = Inr ''span > input'' \<and>
   querySelectorAll
     [plain ''div'' [plain ''span'' [textInput]], plain ''p'' [plain ''span'' [textInput]]]
     ''span > input'' = Inr [[0, 0, 0], [1, 0, 0]] \<and>
   buildUniqueSelector
     [plain ''html'' [plain ''body'' [inputWithId ''a'', inputWithId ''a'']]] [0, 0, 0] = ''#a'' \<and>
   querySelectorAll
     [plain ''html'' [plain ''body'' [inputWithId ''a'', inputWithId ''a'']]] ''#a''
     = Inr [[0, 0, 0], [0, 0, 1]] \<and>
   buildUniqueSelector [textInput, textInput] [0] = ''input'' \<and>
   querySelectorAll [textInput, textInput] ''input'' = Inr [[0], [1]]"
  by code_simp

text \<open>
  C2.  The specification requires that a descriptor resolved right after the scan
  yields the captured element.  The code does otherwise on the page whose custom
  element holds one input in its shadow root: the scan describes the input by the deep selector \<open>body > my-widget >>>\<close>
  followed by a blank and the empty local selector, and \<open>queryDeepAll\<close> resolves this
  string to the custom element in the body, not to the input in the shadow root.
\<close>

theorem scan_then_query_misses_element:
  "scanned querySelectorAll DEFAULT_OPTIONS widgetPage =
     Inr [([Child 0, Child 1, Child 0, ShadowStep, Child 0],
           \<lparr>sf_selector = ''body > my-widget >>> '', sf_tag = ''input'', sf_type = ''text'',
            sf_nameAttr = None, sf_label = None\<rparr>)] \<and>
   queryDeepAll querySelectorAll widgetPage ''body > my-widget >>> '' = Inr [[Child 0, Child 1, Child 0]]"
  by code_simp


end
